theory Spec2Isabelle
  imports Main
begin

section \<open>addkey: adding a public key to a container's authorized\_keys\<close>

text \<open>
  A shallow embedding of \<^verbatim>\<open>addkey.go\<close>. Go byte slices and strings are both lists of
  8-bit characters. Functions of the repository keep their names; functions of the Go
  standard library and of \<^verbatim>\<open>golang.org/x/crypto/ssh\<close> that the program calls are
  modelled next to them, each with a note on what it stands for.
\<close>

subsection \<open>Byte-slice helpers of the Go standard library\<close>

text \<open>\<^verbatim>\<open>bytes.HasPrefix(s, prefix)\<close>: \<open>s\<close> begins with the bytes of \<open>prefix\<close>.\<close>

definition HasPrefix :: "string \<Rightarrow> string \<Rightarrow> bool" where
  "HasPrefix s p = (take (length p) s = p)"

text \<open>
  \<^verbatim>\<open>bytes.IndexByte(s, c)\<close>: the index of the first \<open>c\<close> in \<open>s\<close>; Go's \<open>-1\<close> is
  \<open>None\<close>.
\<close>

fun IndexByte :: "string \<Rightarrow> char \<Rightarrow> nat option" where
  "IndexByte [] c = None"
| "IndexByte (x # xs) c =
     (if x = c then Some 0
      else (case IndexByte xs c of None \<Rightarrow> None | Some i \<Rightarrow> Some (Suc i)))"

text \<open>
  \<^verbatim>\<open>bytes.IndexAny(s, chars)\<close> for a set \<open>chars\<close> of ASCII characters: the index of the
  first byte of \<open>s\<close> that occurs in \<open>chars\<close>.
\<close>

fun IndexAny :: "string \<Rightarrow> string \<Rightarrow> nat option" where
  "IndexAny [] cs = None"
| "IndexAny (x # xs) cs =
     (if x \<in> set cs then Some 0
      else (case IndexAny xs cs of None \<Rightarrow> None | Some i \<Rightarrow> Some (Suc i)))"

text \<open>
  The six ASCII white-space bytes (the table \<^verbatim>\<open>asciiSpace\<close> of the package
  \<^verbatim>\<open>bytes\<close>): tab, line feed, vertical tab, form feed, carriage return and space.
\<close>

definition asciiSpace :: "char \<Rightarrow> bool" where
  "asciiSpace c = (c \<in> set [CHR 0x09, CHR 0x0A, CHR 0x0B, CHR 0x0C, CHR 0x0D, CHR '' ''])"

text \<open>
  The UTF-8 encodings of the runes for which \<^verbatim>\<open>unicode.IsSpace\<close> holds: the six ASCII
  bytes, U+0085, U+00A0, U+1680, U+2000 to U+200A, U+2028, U+2029, U+202F, U+205F and
  U+3000.
\<close>

definition spaceSeqs :: "string list" where
  "spaceSeqs =
     [[CHR 0x09], [CHR 0x0A], [CHR 0x0B], [CHR 0x0C], [CHR 0x0D], [CHR 0x20],
      [CHR 0xC2, CHR 0x85], [CHR 0xC2, CHR 0xA0],
      [CHR 0xE1, CHR 0x9A, CHR 0x80],
      [CHR 0xE2, CHR 0x80, CHR 0x80], [CHR 0xE2, CHR 0x80, CHR 0x81],
      [CHR 0xE2, CHR 0x80, CHR 0x82], [CHR 0xE2, CHR 0x80, CHR 0x83],
      [CHR 0xE2, CHR 0x80, CHR 0x84], [CHR 0xE2, CHR 0x80, CHR 0x85],
      [CHR 0xE2, CHR 0x80, CHR 0x86], [CHR 0xE2, CHR 0x80, CHR 0x87],
      [CHR 0xE2, CHR 0x80, CHR 0x88], [CHR 0xE2, CHR 0x80, CHR 0x89],
      [CHR 0xE2, CHR 0x80, CHR 0x8A],
      [CHR 0xE2, CHR 0x80, CHR 0xA8], [CHR 0xE2, CHR 0x80, CHR 0xA9],
      [CHR 0xE2, CHR 0x80, CHR 0xAF], [CHR 0xE2, CHR 0x81, CHR 0x9F],
      [CHR 0xE3, CHR 0x80, CHR 0x80]]"

text \<open>
  Removing, again and again, whichever of the byte sequences \<open>qs\<close> the slice begins
  with, until it begins with none.
\<close>

function stripSeqs :: "string list \<Rightarrow> string \<Rightarrow> string" where
  "stripSeqs qs s =
     (case find (\<lambda>q. q \<noteq> [] \<and> HasPrefix s q) qs of
        None \<Rightarrow> s
      | Some q \<Rightarrow> stripSeqs qs (drop (length q) s))"
  by pat_completeness auto
termination
proof (relation "measure (\<lambda>(qs, s). length s)")
  show "wf (measure (\<lambda>(qs :: string list, s :: string). length s))" by simp
next
  fix qs :: "string list" and s q :: string
  assume "find (\<lambda>q. q \<noteq> [] \<and> HasPrefix s q) qs = Some q"
  then have "q \<noteq> []" "HasPrefix s q"
    by (auto simp: find_Some_iff)
  then have "s \<noteq> []" by (auto simp: HasPrefix_def)
  with \<open>q \<noteq> []\<close> show "((qs, drop (length q) s), qs, s) \<in> measure (\<lambda>(qs, s). length s)"
    by simp
qed

declare stripSeqs.simps [simp del]

text \<open>
  \<^verbatim>\<open>bytes.TrimSpace(s)\<close>: \<open>s\<close> without the white-space runes at its start and at its
  end. Go decodes UTF-8 from the left (\<^verbatim>\<open>utf8.DecodeRune\<close>) and then from the right
  (\<^verbatim>\<open>utf8.DecodeLastRune\<close>); bytes that are not valid UTF-8 decode to the error rune,
  which is no white space. A white-space rune is therefore found exactly where the slice
  begins, respectively ends, with one of the sequences of \<open>spaceSeqs\<close>: none of them is
  the start of another, and in each the first byte is the only one that can start a
  rune.
\<close>

definition TrimSpace :: "string \<Rightarrow> string" where
  "TrimSpace s = rev (stripSeqs (map rev spaceSeqs) (rev (stripSeqs spaceSeqs s)))"

text \<open>The slice begins, respectively ends, with a white-space rune.\<close>

definition startsSpace :: "string \<Rightarrow> bool" where
  "startsSpace s = (\<exists>q \<in> set spaceSeqs. HasPrefix s q)"

definition endsSpace :: "string \<Rightarrow> bool" where
  "endsSpace s = (\<exists>q \<in> set spaceSeqs. HasPrefix (rev s) (rev q))"

subsection \<open>The parts of the ssh library the program uses\<close>

text \<open>
  A \<^verbatim>\<open>ssh.PublicKey\<close> is kept abstract (type \<open>'k\<close>). What the library computes from key
  material is a parameter of the model:
  \<^item> \<open>keyType\<close>: \<^verbatim>\<open>PublicKey.Type()\<close>, the algorithm name;
  \<^item> \<open>keyMarshal\<close>: \<^verbatim>\<open>PublicKey.Marshal()\<close>, the binary wire encoding;
  \<^item> \<open>ParsePublicKey\<close>: \<^verbatim>\<open>ssh.ParsePublicKey\<close>, from wire encoding to key;
  \<^item> \<open>b64encode\<close>, \<open>b64decode\<close>: \<^verbatim>\<open>base64.StdEncoding\<close>.
\<close>

record 'k sshlib =
  keyType :: "'k \<Rightarrow> string"
  keyMarshal :: "'k \<Rightarrow> string"
  ParsePublicKey :: "string \<Rightarrow> 'k option"
  b64encode :: "string \<Rightarrow> string"
  b64decode :: "string \<Rightarrow> string option"

text \<open>The algorithm names \<^verbatim>\<open>ssh.KeyAlgoRSA\<close>, ... of the library.\<close>

definition KeyAlgoRSA :: string where "KeyAlgoRSA = ''ssh-rsa''"
definition KeyAlgoDSA :: string where "KeyAlgoDSA = ''ssh-dss''"
definition KeyAlgoECDSA256 :: string where "KeyAlgoECDSA256 = ''ecdsa-sha2-nistp256''"
definition KeyAlgoECDSA384 :: string where "KeyAlgoECDSA384 = ''ecdsa-sha2-nistp384''"
definition KeyAlgoECDSA521 :: string where "KeyAlgoECDSA521 = ''ecdsa-sha2-nistp521''"

text \<open>
  \<^verbatim>\<open>ssh.MarshalAuthorizedKey(key)\<close>: the type name, a space, the base64 of the wire
  encoding, and a newline.
\<close>

definition MarshalAuthorizedKey :: "'k sshlib \<Rightarrow> 'k \<Rightarrow> string" where
  "MarshalAuthorizedKey lib k =
     keyType lib k @ '' '' @ b64encode lib (keyMarshal lib k) @ [CHR 0x0A]"

text \<open>
  The library's unexported \<^verbatim>\<open>parseAuthorizedKey(in)\<close>, called with what follows the
  first field of a line: trim, take the base64 field up to the first space or tab, decode
  it, parse the key, and return what follows, trimmed, as the comment.
\<close>

definition parseAuthorizedKey :: "'k sshlib \<Rightarrow> string \<Rightarrow> ('k \<times> string) option" where
  "parseAuthorizedKey lib inp =
     (let inp = TrimSpace inp;
          i = (case IndexAny inp [CHR '' '', CHR 0x09] of None \<Rightarrow> length inp | Some i \<Rightarrow> i);
          base64Key = take i inp
      in case b64decode lib base64Key of
           None \<Rightarrow> None
         | Some key \<Rightarrow>
             (case ParsePublicKey lib key of
                None \<Rightarrow> None
              | Some out \<Rightarrow> Some (out, TrimSpace (drop i inp))))"

text \<open>
  The scan over a leading options field in \<^verbatim>\<open>ssh.ParseAuthorizedKey\<close>: it stops at
  the first space or tab outside double quotes and yields its index; a quote toggles
  unless a backslash precedes it. When the bytes run out the loop variable holds the last
  index.
\<close>

function scanOptions :: "string \<Rightarrow> nat \<Rightarrow> bool \<Rightarrow> nat" where
  "scanOptions inp i inQuote =
     (if length inp \<le> i then length inp - 1
      else
        let b = inp ! i;
            isEnd = (\<not> inQuote \<and> (b = CHR '' '' \<or> b = CHR 0x09))
        in if isEnd then i
           else scanOptions inp (Suc i)
                  (if b = CHR 0x22 \<and> (i = 0 \<or> inp ! (i - 1) \<noteq> CHR 0x5C)
                   then \<not> inQuote else inQuote))"
  by pat_completeness auto
termination
  by (relation "measure (\<lambda>(inp, i, q). length inp - i)") auto

declare scanOptions.simps [simp del]

text \<open>The loop that skips spaces and tabs from index \<open>i\<close> on.\<close>

function skipBlanks :: "string \<Rightarrow> nat \<Rightarrow> nat" where
  "skipBlanks inp i =
     (if i < length inp \<and> (inp ! i = CHR '' '' \<or> inp ! i = CHR 0x09)
      then skipBlanks inp (Suc i) else i)"
  by pat_completeness auto
termination
  by (relation "measure (\<lambda>(inp, i). length inp - i)") auto

declare skipBlanks.simps [simp del]

text \<open>
  One round of the line loop of \<^verbatim>\<open>ssh.ParseAuthorizedKey\<close> on a single line \<open>inp\<close>
  (the bytes before the first newline): \<open>Some\<close> of key and comment when the line holds a
  key, \<open>None\<close> when the loop goes on to the rest of the input.
\<close>

definition parseLine :: "'k sshlib \<Rightarrow> string \<Rightarrow> ('k \<times> string) option" where
  "parseLine lib inp0 =
     (let inp = (case IndexByte inp0 (CHR 0x0D) of None \<Rightarrow> inp0 | Some e \<Rightarrow> take e inp0);
          inp = TrimSpace inp
      in if length inp = 0 \<or> inp ! 0 = CHR ''#'' then None
         else
           (case IndexAny inp [CHR '' '', CHR 0x09] of
              None \<Rightarrow> None
            | Some i \<Rightarrow>
                (case parseAuthorizedKey lib (drop i inp) of
                   Some r \<Rightarrow> Some r
                 | None \<Rightarrow>
                     (let j = skipBlanks inp (scanOptions inp 0 False)
                      in if j = length inp then None
                         else
                           (case IndexAny (drop j inp) [CHR '' '', CHR 0x09] of
                              None \<Rightarrow> None
                            | Some i \<Rightarrow> parseAuthorizedKey lib (drop i (drop j inp)))))))"

text \<open>
  \<^verbatim>\<open>ssh.ParseAuthorizedKey(in)\<close>: the first line of \<open>in\<close> that holds a key decides;
  when no line does, the error is \<^verbatim>\<open>ssh: no key found\<close> (here \<open>None\<close>). The options
  and the rest of the input, which the program discards, are not returned.
\<close>

function ParseAuthorizedKey :: "'k sshlib \<Rightarrow> string \<Rightarrow> ('k \<times> string) option" where
  "ParseAuthorizedKey lib inp =
     (if length inp = 0 then None
      else
        (case IndexByte inp (CHR 0x0A) of
           None \<Rightarrow> parseLine lib inp
         | Some e \<Rightarrow>
             (case parseLine lib (take e inp) of
                Some r \<Rightarrow> Some r
              | None \<Rightarrow> ParseAuthorizedKey lib (drop (Suc e) inp))))"
  by pat_completeness auto
termination
  by (relation "measure (\<lambda>(lib, inp). length inp)") auto

declare ParseAuthorizedKey.simps [simp del]

subsection \<open>Errors\<close>

text \<open>
  Go errors as values. \<open>EOF\<close> is \<^verbatim>\<open>io.EOF\<close>; \<open>ErrOS\<close> is an error of the operating
  system, of \<^verbatim>\<open>os/exec\<close> or of a library, known by its message only;
  \<open>errUnsupportedKeyAlgo\<close> is the program's variable of that name; the other
  constructors are the errors the program makes with \<^verbatim>\<open>fmt.Errorf\<close> and
  \<^verbatim>\<open>errors.New\<close>, those with an argument wrapping the message of another error.
\<close>

datatype error =
    EOF
  | ErrOS string
  | errUnsupportedKeyAlgo
  | ErrParsingKey error
  | ErrReadingKey error
  | ErrNoKeys
  | ErrDuplicateKey
  | ErrPushing error
  | ErrClosingTemp error
  | ErrDeletingTemp error

text \<open>The message of an error, as \<^verbatim>\<open>%v\<close> prints it.\<close>

fun errMsg :: "error \<Rightarrow> string" where
  "errMsg EOF = ''EOF''"
| "errMsg (ErrOS m) = m"
| "errMsg errUnsupportedKeyAlgo =
     ''unsupported key algorithm. Supported algorithms: '' @ KeyAlgoRSA @ '', '' @ KeyAlgoDSA
       @ '', '' @ KeyAlgoECDSA256 @ '', '' @ KeyAlgoECDSA384 @ '', '' @ KeyAlgoECDSA521 @ ''.''"
| "errMsg (ErrParsingKey e) = ''error parsing key: '' @ errMsg e"
| "errMsg (ErrReadingKey e) = ''error reading key: '' @ errMsg e"
| "errMsg ErrNoKeys = ''no keys to write''"
| "errMsg ErrDuplicateKey = ''key already in authorized_keys''"
| "errMsg (ErrPushing e) = ''error pushing new authorized_keys: '' @ errMsg e"
| "errMsg (ErrClosingTemp e) = ''error closing temp file: '' @ errMsg e @ [CHR 0x0A]"
| "errMsg (ErrDeletingTemp e) = ''error deleting temp file: '' @ errMsg e @ [CHR 0x0A]"

subsection \<open>The world the program runs in\<close>

text \<open>
  The calls the program makes that act outside of it: a command run, with its argument
  vector, and the closing and the removal of a file, by name.
\<close>

datatype call = Exec "string list" | Close string | Remove string

text \<open>
  The state the program reads and changes: the local files (path to contents), the files
  inside containers (the path \<^verbatim>\<open>lxc\<close> is given, to contents), what has been written
  to standard error, and the calls made so far, in order.
\<close>

record world =
  files :: "string \<rightharpoonup> string"
  remote :: "string \<rightharpoonup> string"
  stderr :: string
  calls :: "call list"

text \<open>
  What the environment decides for one run: the value of \<^verbatim>\<open>$HOME\<close>, the program name
  \<^verbatim>\<open>os.Args[0]\<close>, the text \<^verbatim>\<open>flag.PrintDefaults\<close> prints, the name
  \<^verbatim>\<open>ioutil.TempFile\<close> picks, and for every operation that can fail the message of the
  error it fails with, if any (\<open>writeErr n\<close> for the \<open>n\<close>-th call of \<^verbatim>\<open>w.Write\<close>).
\<close>

record env =
  HOME :: string
  progName :: string
  flagDefaults :: string
  tmpName :: string
  tempFileErr :: "string option"
  pullErr :: "string option"
  tmpReadErr :: "string option"
  truncateErr :: "string option"
  writeErr :: "nat \<Rightarrow> string option"
  flushErr :: "string option"
  pushErr :: "string option"
  closeErr :: "string option"
  removeErr :: "string option"

subsection \<open>The program\<close>

text \<open>\<^verbatim>\<open>perr\<close> prints an error to standard error.\<close>

definition perr :: "error \<Rightarrow> world \<Rightarrow> world" where
  "perr e w = w\<lparr>stderr := stderr w @ ''Error: '' @ errMsg e @ [CHR 0x0A]\<rparr>"

text \<open>
  \<^verbatim>\<open>rmFile\<close> closes and deletes a file, given here by its name. A failure of either
  step is printed and nothing else; the removal is attempted also after a failed close.
\<close>

definition rmFile :: "env \<Rightarrow> string \<Rightarrow> world \<Rightarrow> world" where
  "rmFile ev f w =
     (let w = w\<lparr>calls := calls w @ [Close f]\<rparr>;
          w = (case closeErr ev of None \<Rightarrow> w | Some m \<Rightarrow> perr (ErrClosingTemp (ErrOS m)) w);
          w = w\<lparr>calls := calls w @ [Remove f]\<rparr>
      in case removeErr ev of
           None \<Rightarrow> w\<lparr>files := (files w)(f := None)\<rparr>
         | Some m \<Rightarrow> perr (ErrDeletingTemp (ErrOS m)) w)"

text \<open>
  \<^verbatim>\<open>lxcPull\<close> runs \<^verbatim>\<open>lxc file pull srcPath dstPath\<close>. The command fails when the
  environment says so or when the container has no such file; otherwise the local file
  \<open>dstPath\<close> holds the remote contents.
\<close>

definition lxcPull :: "env \<Rightarrow> string \<Rightarrow> string \<Rightarrow> world \<Rightarrow> error option \<times> world" where
  "lxcPull ev dstPath srcPath w =
     (let w = w\<lparr>calls := calls w @ [Exec [''lxc'', ''file'', ''pull'', srcPath, dstPath]]\<rparr>
      in case pullErr ev of
           Some m \<Rightarrow> (Some (ErrOS m), w)
         | None \<Rightarrow>
             (case remote w srcPath of
                None \<Rightarrow> (Some (ErrOS ''exit status 1''), w)
              | Some c \<Rightarrow> (None, w\<lparr>files := (files w)(dstPath \<mapsto> c)\<rparr>)))"

text \<open>
  \<^verbatim>\<open>lxcPush\<close> runs \<^verbatim>\<open>lxc file push --uid=0 --gid=0 --mode=640 srcPath dstPath\<close>.
  The push is all or nothing: when the command fails the container is unchanged,
  otherwise the remote file \<open>dstPath\<close> holds the contents of the local file.
\<close>

definition lxcPush :: "env \<Rightarrow> string \<Rightarrow> string \<Rightarrow> world \<Rightarrow> error option \<times> world" where
  "lxcPush ev dstPath srcPath w =
     (let w = w\<lparr>calls := calls w @
                 [Exec [''lxc'', ''file'', ''push'', ''--uid=0'', ''--gid=0'', ''--mode=640'',
                        srcPath, dstPath]]\<rparr>
      in case pushErr ev of
           Some m \<Rightarrow> (Some (ErrOS m), w)
         | None \<Rightarrow>
             (case files w srcPath of
                None \<Rightarrow> (Some (ErrOS ''exit status 1''), w)
              | Some c \<Rightarrow> (None, w\<lparr>remote := (remote w)(dstPath \<mapsto> c)\<rparr>)))"

text \<open>The struct \<^verbatim>\<open>authKey\<close>: a public key and its comment.\<close>

record 'k authKey =
  Key :: 'k
  Comment :: string

text \<open>
  \<^verbatim>\<open>MarshalWithComment\<close>: the authorized\_keys text of the key trimmed of white space,
  a space, the comment and a newline.
\<close>

definition MarshalWithComment :: "'k sshlib \<Rightarrow> 'k authKey \<Rightarrow> string" where
  "MarshalWithComment lib k =
     TrimSpace (MarshalAuthorizedKey lib (Key k)) @ [CHR '' ''] @ Comment k @ [CHR 0x0A]"

text \<open>
  \<^verbatim>\<open>parseAuthKey\<close>: the line has to begin with the bytes of one of the five algorithm
  names, tried in the order of the source; then the library parses it. The library's
  only error here is \<^verbatim>\<open>ssh: no key found\<close>, which the program wraps.
\<close>

definition parseAuthKey :: "'k sshlib \<Rightarrow> string \<Rightarrow> error + 'k authKey" where
  "parseAuthKey lib line =
     (let supported =
            (if HasPrefix line KeyAlgoRSA then True
             else if HasPrefix line KeyAlgoDSA then True
             else if HasPrefix line KeyAlgoECDSA256 then True
             else if HasPrefix line KeyAlgoECDSA384 then True
             else if HasPrefix line KeyAlgoECDSA521 then True
             else False)
      in if \<not> supported then Inl errUnsupportedKeyAlgo
         else
           (case ParseAuthorizedKey lib line of
              None \<Rightarrow> Inl (ErrParsingKey (ErrOS ''ssh: no key found''))
            | Some (key, comment) \<Rightarrow> Inr \<lparr>Key = key, Comment = comment\<rparr>))"

text \<open>
  A reader is the bytes still to be read and the error the source reports once they are
  used up: \<open>EOF\<close> at the end of a file, another error when reading fails.
  \<^verbatim>\<open>ReadBytes(delim)\<close> of \<^verbatim>\<open>bufio.Reader\<close> returns the bytes up to and including
  the first \<open>delim\<close>; when there is none it returns the bytes that were left
  together with the error.
\<close>

type_synonym reader = "string \<times> error"

definition ReadBytes :: "reader \<Rightarrow> char \<Rightarrow> string \<times> error option \<times> reader" where
  "ReadBytes rr delim =
     (case IndexByte (fst rr) delim of
        None \<Rightarrow> (fst rr, Some (snd rr), ([], snd rr))
      | Some i \<Rightarrow> (take (Suc i) (fst rr), None, (drop (Suc i) (fst rr), snd rr)))"

text \<open>A line that ends in its delimiter leaves fewer bytes: the read loop terminates.\<close>

lemma IndexByte_less: "IndexByte s c = Some i \<Longrightarrow> i < length s"
  by (induction s arbitrary: i) (auto split: if_splits option.splits)

lemma ReadBytes_shorter:
  "(line, y) = ReadBytes rr c \<Longrightarrow> (None, rr') = y \<Longrightarrow> length (fst rr') < length (fst rr)"
  by (auto simp: ReadBytes_def split: option.splits dest: IndexByte_less)

text \<open>
  The loop of \<^verbatim>\<open>readAuthorizedKeys\<close>, with the keys read so far. On an error of
  \<^verbatim>\<open>ReadBytes\<close> the line it returned is not looked at: \<open>EOF\<close> ends the loop with
  the keys, any other error is returned. The result is Go's pair of the slice (\<open>[]\<close>
  for \<^verbatim>\<open>nil\<close>) and the error.
\<close>

function readLoop ::
  "'k sshlib \<Rightarrow> reader \<Rightarrow> 'k authKey list \<Rightarrow> 'k authKey list \<times> error option" where
  "readLoop lib rr keys =
     (case ReadBytes rr (CHR 0x0A) of
        (line, Some err, rr') \<Rightarrow> (if err = EOF then (keys, None) else ([], Some err))
      | (line, None, rr') \<Rightarrow>
          (case parseAuthKey lib line of
             Inl err \<Rightarrow> ([], Some err)
           | Inr key \<Rightarrow> readLoop lib rr' (keys @ [key])))"
  by pat_completeness auto
termination
  apply (relation "measure (\<lambda>(lib, rr, keys). length (fst rr))")
   apply simp
  apply (simp, erule (1) ReadBytes_shorter)
  done

declare readLoop.simps [simp del]

text \<open>\<^verbatim>\<open>readAuthorizedKeys(r)\<close> starts the loop with no keys.\<close>

definition readAuthorizedKeys :: "'k sshlib \<Rightarrow> reader \<Rightarrow> 'k authKey list \<times> error option" where
  "readAuthorizedKeys lib r = readLoop lib r []"

text \<open>
  The write loop of \<^verbatim>\<open>writeAuthorizedKeys\<close>: the \<open>n\<close>-th call of \<^verbatim>\<open>w.Write\<close>
  fails when the environment says so, and otherwise adds the encoded record to the bytes
  written so far.
\<close>

fun writeLoop ::
  "'k sshlib \<Rightarrow> env \<Rightarrow> nat \<Rightarrow> 'k authKey list \<Rightarrow> string \<Rightarrow> string \<times> error option" where
  "writeLoop lib ev n [] buf = (buf, None)"
| "writeLoop lib ev n (k # ks) buf =
     (case writeErr ev n of
        Some m \<Rightarrow> (buf, Some (ErrOS m))
      | None \<Rightarrow> writeLoop lib ev (Suc n) ks (buf @ MarshalWithComment lib k))"

text \<open>
  \<^verbatim>\<open>writeAuthorizedKeys(f, keys, dstPath)\<close>, the file \<open>f\<close> given by its name. After
  \<^verbatim>\<open>Truncate(0)\<close> and \<^verbatim>\<open>Seek(0, 0)\<close> the file is empty and written from its start;
  the bytes go through a \<^verbatim>\<open>bufio.Writer\<close>, so the file holds all of them once
  \<^verbatim>\<open>Flush\<close> has succeeded. When a write or the flush fails the file holds some prefix
  of them, which the model leaves empty: the program returns at once and nothing reads
  the file again.
\<close>

definition writeAuthorizedKeys ::
  "'k sshlib \<Rightarrow> env \<Rightarrow> string \<Rightarrow> 'k authKey list \<Rightarrow> string \<Rightarrow> world \<Rightarrow> error option \<times> world" where
  "writeAuthorizedKeys lib ev f keys dstPath w =
     (if length keys = 0 then (Some ErrNoKeys, w)
      else
        (case truncateErr ev of
           Some m \<Rightarrow> (Some (ErrOS m), w)
         | None \<Rightarrow>
             (let w = w\<lparr>files := (files w)(f \<mapsto> [])\<rparr>
              in case writeLoop lib ev 0 keys [] of
                   (buf, Some err) \<Rightarrow> (Some err, w)
                 | (buf, None) \<Rightarrow>
                     (case flushErr ev of
                        Some m \<Rightarrow> (Some (ErrOS m), w)
                      | None \<Rightarrow>
                          (let w = w\<lparr>files := (files w)(f \<mapsto> buf)\<rparr>
                           in case lxcPush ev dstPath f w of
                                (Some err, w) \<Rightarrow> (Some err, w)
                              | (None, w) \<Rightarrow> (None, w))))))"

text \<open>\<^verbatim>\<open>ioutil.ReadFile\<close>: the contents of a local file, or an error when there is none.\<close>

definition ReadFile :: "world \<Rightarrow> string \<Rightarrow> error + string" where
  "ReadFile w path =
     (case files w path of
        None \<Rightarrow> Inl (ErrOS (''open '' @ path @ '': no such file or directory''))
      | Some c \<Rightarrow> Inr c)"

text \<open>
  \<^verbatim>\<open>ioutil.TempFile\<close>: a new, empty file under the name the environment picks, or an
  error.
\<close>

definition TempFile :: "env \<Rightarrow> world \<Rightarrow> error + (string \<times> world)" where
  "TempFile ev w =
     (case tempFileErr ev of
        Some m \<Rightarrow> Inl (ErrOS m)
      | None \<Rightarrow> Inr (tmpName ev, w\<lparr>files := (files w)(tmpName ev \<mapsto> [])\<rparr>))"

text \<open>
  The open temporary file as a reader: its contents, ended by \<open>EOF\<close> or by the read
  error of the environment.
\<close>

definition fileReader :: "env \<Rightarrow> world \<Rightarrow> string \<Rightarrow> reader" where
  "fileReader ev w f =
     ((case files w f of None \<Rightarrow> [] | Some c \<Rightarrow> c),
      (case tmpReadErr ev of None \<Rightarrow> EOF | Some m \<Rightarrow> ErrOS m))"

text \<open>
  The duplicate check of \<^verbatim>\<open>realmain\<close>: \<^verbatim>\<open>bytes.Compare\<close> of the new key's
  \<^verbatim>\<open>Marshal()\<close> with that of each key read, in order.
\<close>

fun isDuplicate :: "'k sshlib \<Rightarrow> string \<Rightarrow> 'k authKey list \<Rightarrow> bool" where
  "isDuplicate lib keymarshal [] = False"
| "isDuplicate lib keymarshal (k # ks) =
     (if keymarshal = keyMarshal lib (Key k) then True else isDuplicate lib keymarshal ks)"

text \<open>The local variables \<^verbatim>\<open>keyPath\<close> and \<^verbatim>\<open>authKeysPath\<close> of \<^verbatim>\<open>realmain\<close>.\<close>

definition keyPath :: "env \<Rightarrow> string \<Rightarrow> string" where
  "keyPath ev keyFlag = (if length keyFlag \<noteq> 0 then keyFlag else HOME ev @ ''/.ssh/id_rsa.pub'')"

definition authKeysPath :: "string \<Rightarrow> string" where
  "authKeysPath container = container @ ''/root/.ssh/authorized_keys''"

text \<open>
  \<^verbatim>\<open>realmain\<close> from the line after \<^verbatim>\<open>defer rmFile(tmp)\<close> to its end: pull, read,
  duplicate check, append and write.
\<close>

definition realmainBody ::
  "'k sshlib \<Rightarrow> env \<Rightarrow> string \<Rightarrow> 'k authKey \<Rightarrow> string \<Rightarrow> world \<Rightarrow> error option \<times> world" where
  "realmainBody lib ev container key tmp w =
     (case lxcPull ev tmp (authKeysPath container) w of
        (Some err, w) \<Rightarrow> (Some err, w)
      | (None, w) \<Rightarrow>
          (case readAuthorizedKeys lib (fileReader ev w tmp) of
             (keys, Some err) \<Rightarrow> (Some err, w)
           | (keys, None) \<Rightarrow>
               (if isDuplicate lib (keyMarshal lib (Key key)) keys
                then (Some ErrDuplicateKey, w)
                else
                  (case writeAuthorizedKeys lib ev tmp (keys @ [key])
                          (authKeysPath container) w of
                     (Some err, w) \<Rightarrow> (Some (ErrPushing err), w)
                   | (None, w) \<Rightarrow> (None, w)))))"

text \<open>
  \<^verbatim>\<open>realmain(container, keyFlag)\<close>. The deferred \<^verbatim>\<open>rmFile(tmp)\<close> runs on every
  return after the temporary file was made, after the returned error is fixed.
\<close>

definition realmain ::
  "'k sshlib \<Rightarrow> env \<Rightarrow> string \<Rightarrow> string \<Rightarrow> world \<Rightarrow> error option \<times> world" where
  "realmain lib ev container keyFlag w =
     (case ReadFile w (keyPath ev keyFlag) of
        Inl err \<Rightarrow> (Some (ErrReadingKey err), w)
      | Inr keybuf \<Rightarrow>
          (case parseAuthKey lib keybuf of
             Inl err \<Rightarrow> (Some err, w)
           | Inr key \<Rightarrow>
               (case TempFile ev w of
                  Inl err \<Rightarrow> (Some err, w)
                | Inr (tmp, w) \<Rightarrow>
                    (case realmainBody lib ev container key tmp w of
                       (err, w) \<Rightarrow> (err, rmFile ev tmp w)))))"

text \<open>
  \<^verbatim>\<open>printUsage\<close> prints the usage line and then what \<^verbatim>\<open>flag.PrintDefaults\<close>
  prints, both to standard error.
\<close>

definition printUsage :: "env \<Rightarrow> world \<Rightarrow> world" where
  "printUsage ev w =
     w\<lparr>stderr := stderr w @ ''usage: '' @ progName ev @ '' [OPTIONS] <container>'' @ [CHR 0x0A]
                    @ flagDefaults ev\<rparr>"

text \<open>
  \<^verbatim>\<open>flag.Arg(i)\<close>: the \<open>i\<close>-th positional argument, or the empty string when there
  is none.
\<close>

definition Arg :: "string list \<Rightarrow> nat \<Rightarrow> string" where
  "Arg args i = (if i < length args then args ! i else [])"

text \<open>
  \<^verbatim>\<open>main\<close> once \<^verbatim>\<open>flag.Parse\<close> has returned, with the value of the flag \<^verbatim>\<open>-i\<close>
  and the positional arguments. (\<^verbatim>\<open>flag.Parse\<close> itself ends the process on a
  malformed command line; that is the library's doing and not modelled.) The result is
  the exit code and the world the process leaves.
\<close>

definition main :: "'k sshlib \<Rightarrow> env \<Rightarrow> string \<Rightarrow> string list \<Rightarrow> world \<Rightarrow> nat \<times> world" where
  "main lib ev keyFlag args w =
     (let container = Arg args 0
      in if length container = 0 then (1, printUsage ev w)
         else
           (case realmain lib ev container keyFlag w of
              (Some err, w) \<Rightarrow> (1, perr err w)
            | (None, w) \<Rightarrow> (0, w)))"

subsection \<open>An instance of the library parameters\<close>

text \<open>
  Below, the model is run on concrete inputs. For that the library parameters get an
  instance: base64 in the standard alphabet with padding, and keys that are a type name
  and a body, with the wire encoding of ssh (the length of the name in four bytes, the
  name, the body; names shorter than 256 bytes). The instance checks the framing only,
  not the body as the library does for each algorithm. Numbers are computed bit by bit.
\<close>

text \<open>The eight bits of a byte, highest first, and back.\<close>

fun bitsOf :: "char \<Rightarrow> bool list" where
  "bitsOf (Char b0 b1 b2 b3 b4 b5 b6 b7) = [b7, b6, b5, b4, b3, b2, b1, b0]"

fun bytesOfBits :: "bool list \<Rightarrow> string" where
  "bytesOfBits (b7 # b6 # b5 # b4 # b3 # b2 # b1 # b0 # rest) =
     Char b0 b1 b2 b3 b4 b5 b6 b7 # bytesOfBits rest"
| "bytesOfBits rest = []"

text \<open>
  The number a list of bits stands for, highest bit first, and the lowest \<open>k\<close> bits of a
  number, by repeated halving.
\<close>

fun natOfBits :: "nat \<Rightarrow> bool list \<Rightarrow> nat" where
  "natOfBits n [] = n"
| "natOfBits n (b # bs) = natOfBits (n + n + (if b then Suc 0 else 0)) bs"

fun half :: "nat \<Rightarrow> nat \<times> bool" where
  "half 0 = (0, False)"
| "half (Suc 0) = (0, True)"
| "half (Suc (Suc n)) = (case half n of (h, b) \<Rightarrow> (Suc h, b))"

fun bitsOfNat :: "nat \<Rightarrow> nat \<Rightarrow> bool list \<Rightarrow> bool list" where
  "bitsOfNat 0 n acc = acc"
| "bitsOfNat (Suc k) n acc = (case half n of (h, b) \<Rightarrow> bitsOfNat k h (b # acc))"

text \<open>
  Base64: three bytes are four groups of six bits, each written as a character of the
  alphabet; one or two bytes left over are filled up with zero bits and \<^verbatim>\<open>=\<close>.
\<close>

definition b64alphabet :: string where
  "b64alphabet = ''ABCDEFGHIJKLMNOPQRSTUVWXYZabcdefghijklmnopqrstuvwxyz0123456789+/''"

fun enc6 :: "bool list \<Rightarrow> string" where
  "enc6 (a # b # c # d # e # f # rest) = b64alphabet ! natOfBits 0 [a, b, c, d, e, f] # enc6 rest"
| "enc6 rest = []"

fun b64enc :: "string \<Rightarrow> string" where
  "b64enc (x # y # z # rest) = enc6 (bitsOf x @ bitsOf y @ bitsOf z) @ b64enc rest"
| "b64enc [x, y] = enc6 (bitsOf x @ bitsOf y @ [False, False]) @ ''=''"
| "b64enc [x] = enc6 (bitsOf x @ [False, False, False, False]) @ ''==''"
| "b64enc [] = []"

fun dec6 :: "string \<Rightarrow> bool list option" where
  "dec6 [] = Some []"
| "dec6 (c # cs) =
     (case IndexByte b64alphabet c of
        None \<Rightarrow> None
      | Some n \<Rightarrow> (case dec6 cs of None \<Rightarrow> None | Some bs \<Rightarrow> Some (bitsOfNat 6 n [] @ bs)))"

fun b64dec :: "string \<Rightarrow> string option" where
  "b64dec [] = Some []"
| "b64dec (a # b # c # d # rest) =
     (if rest = [] \<and> d = CHR ''='' then
        map_option bytesOfBits (dec6 (if c = CHR ''='' then [a, b] else [a, b, c]))
      else
        (case dec6 [a, b, c, d] of
           None \<Rightarrow> None
         | Some bs \<Rightarrow> (case b64dec rest of None \<Rightarrow> None | Some r \<Rightarrow> Some (bytesOfBits bs @ r))))"
| "b64dec cs = None"

text \<open>
  Keys of the instance: a type name and a body. The wire encoding starts with the length
  of the name as a 32-bit number, of which the instance uses the lowest byte.
\<close>

datatype testKey = TestKey string string

definition testLib :: "testKey sshlib" where
  "testLib = \<lparr>
     keyType = (\<lambda>k. case k of TestKey a b \<Rightarrow> a),
     keyMarshal = (\<lambda>k. case k of TestKey a b \<Rightarrow>
        [CHR 0x00, CHR 0x00, CHR 0x00] @ bytesOfBits (bitsOfNat 8 (length a) []) @ a @ b),
     ParsePublicKey = (\<lambda>w.
        case w of
          l3 # l2 # l1 # l0 # rest \<Rightarrow>
            (let n = natOfBits 0 (bitsOf l0)
             in if l3 = CHR 0x00 \<and> l2 = CHR 0x00 \<and> l1 = CHR 0x00 \<and> n \<le> length rest
                then Some (TestKey (take n rest) (drop n rest))
                else None)
        | _ \<Rightarrow> None),
     b64encode = b64enc,
     b64decode = b64dec \<rparr>"

subsection \<open>Inputs for concrete runs\<close>

text \<open>
  Three key records with their authorized\_keys lines under the instance above, an
  environment in which no operation fails, and a world in which the user's key file holds
  the third record and the container \<^verbatim>\<open>c1\<close> holds the first two.
\<close>

definition keyA :: "testKey authKey" where
  "keyA = \<lparr>Key = TestKey ''ssh-rsa'' ''ka'', Comment = ''alice''\<rparr>"

definition keyB :: "testKey authKey" where
  "keyB = \<lparr>Key = TestKey ''ssh-dss'' ''kb'', Comment = ''bob''\<rparr>"

definition keyC :: "testKey authKey" where
  "keyC = \<lparr>Key = TestKey ''ssh-rsa'' ''kc'', Comment = ''carol''\<rparr>"

definition lineA :: string where
  "lineA = ''ssh-rsa AAAAB3NzaC1yc2FrYQ== alice'' @ [CHR 0x0A]"

definition lineB :: string where
  "lineB = ''ssh-dss AAAAB3NzaC1kc3NrYg== bob'' @ [CHR 0x0A]"

definition lineC :: string where
  "lineC = ''ssh-rsa AAAAB3NzaC1yc2FrYw== carol'' @ [CHR 0x0A]"

definition env0 :: env where
  "env0 = \<lparr>HOME = ''/home/u'', progName = ''addkey'', flagDefaults = [],
            tmpName = ''/tmp/addkey1'', tempFileErr = None, pullErr = None, tmpReadErr = None,
            truncateErr = None, writeErr = (\<lambda>n. None), flushErr = None, pushErr = None,
            closeErr = None, removeErr = None\<rparr>"

definition world0 :: world where
  "world0 = \<lparr>files = [''/home/u/.ssh/id_rsa.pub'' \<mapsto> lineC],
              remote = [''c1/root/.ssh/authorized_keys'' \<mapsto> lineA @ lineB],
              stderr = [], calls = []\<rparr>"

definition envRemoveFails :: env where
  "envRemoveFails = env0\<lparr>removeErr := Some ''operation not permitted''\<rparr>"

text \<open>
  A world in which the container already holds the user's key under another comment,
  and one in which the container's file is empty.
\<close>

definition lineC2 :: string where
  "lineC2 = ''ssh-rsa AAAAB3NzaC1yc2FrYw== work laptop'' @ [CHR 0x0A]"

definition world1 :: world where
  "world1 = \<lparr>files = [''/home/u/.ssh/id_rsa.pub'' \<mapsto> lineC],
              remote = [''c1/root/.ssh/authorized_keys'' \<mapsto> lineA @ lineC2],
              stderr = [], calls = []\<rparr>"

definition world2 :: world where
  "world2 = \<lparr>files = [''/home/u/.ssh/id_rsa.pub'' \<mapsto> lineC],
              remote = [''c1/root/.ssh/authorized_keys'' \<mapsto> []],
              stderr = [], calls = []\<rparr>"

text \<open>
  A world in which the last line of the container's file has no newline, and the first
  record with a space in front of its comment.
\<close>

definition world3 :: world where
  "world3 = \<lparr>files = [''/home/u/.ssh/id_rsa.pub'' \<mapsto> lineC],
              remote = [''c1/root/.ssh/authorized_keys'' \<mapsto>
                          lineA @ ''ssh-dss AAAAB3NzaC1kc3NrYg== bob''],
              stderr = [], calls = []\<rparr>"

definition keyA2 :: "testKey authKey" where
  "keyA2 = \<lparr>Key = TestKey ''ssh-rsa'' ''ka'', Comment = '' alice''\<rparr>"

text \<open>The first record with a no-break space (U+00A0) after its comment.\<close>

definition keyA3 :: "testKey authKey" where
  "keyA3 = \<lparr>Key = TestKey ''ssh-rsa'' ''ka'', Comment = ''alice'' @ [CHR 0xC2, CHR 0xA0]\<rparr>"

text \<open>
  A line whose first field is the name of a certificate type, and a line of a key type
  the program does not support.
\<close>

definition certLine :: string where
  "certLine = ''ssh-rsa-cert-v01@openssh.com AAAAB3NzaC1yc2FrYQ== alice'' @ [CHR 0x0A]"

definition lineE :: string where
  "lineE = ''ssh-ed25519 AAAAC3NzaC1lZDI1NTE5a2U= eve'' @ [CHR 0x0A]"

subsection \<open>Notions of the specification\<close>

text \<open>
  The five supported algorithm identifiers, and the test \<open>parseAuthKey\<close> makes: the
  line begins with the bytes of one of them.
\<close>

definition supportedAlgos :: "string list" where
  "supportedAlgos = [KeyAlgoRSA, KeyAlgoDSA, KeyAlgoECDSA256, KeyAlgoECDSA384, KeyAlgoECDSA521]"

definition hasSupportedPrefix :: "string \<Rightarrow> bool" where
  "hasSupportedPrefix line = (\<exists>a \<in> set supportedAlgos. HasPrefix line a)"

text \<open>
  The leading token of a line in the words of the specification: the bytes before the
  first space or tab.
\<close>

definition leadingToken :: "string \<Rightarrow> string" where
  "leadingToken line = takeWhile (\<lambda>c. c \<noteq> CHR '' '' \<and> c \<noteq> CHR 0x09) line"

text \<open>
  A well-formed key record in the words of the specification: a supported algorithm and
  a comment without newline.
\<close>

definition wellFormed :: "'k sshlib \<Rightarrow> 'k authKey \<Rightarrow> bool" where
  "wellFormed lib r = (keyType lib (Key r) \<in> set supportedAlgos \<and> CHR 0x0A \<notin> set (Comment r))"

text \<open>
  What the round trip needs of the library for a key: the key is read back from its wire
  encoding, the wire encoding from its base64 text, and that text is not empty and is
  ASCII without white space. It holds of the keys the library itself hands out.
\<close>

definition keyReadsBack :: "'k sshlib \<Rightarrow> 'k \<Rightarrow> bool" where
  "keyReadsBack lib k =
     (ParsePublicKey lib (keyMarshal lib k) = Some k \<and>
      b64decode lib (b64encode lib (keyMarshal lib k)) = Some (keyMarshal lib k) \<and>
      b64encode lib (keyMarshal lib k) \<noteq> [] \<and>
      (\<forall>c \<in> set (b64encode lib (keyMarshal lib k)). \<not> digit7 c \<and> \<not> asciiSpace c))"

text \<open>
  A comment that a line can carry unchanged: no newline, no carriage return, and no
  white space at either end, so that \<^verbatim>\<open>bytes.TrimSpace\<close> leaves it as it is.
\<close>

definition plainComment :: "string \<Rightarrow> bool" where
  "plainComment c = (CHR 0x0A \<notin> set c \<and> CHR 0x0D \<notin> set c \<and> TrimSpace c = c)"

section \<open>Properties\<close>

subsection \<open>Trimming white space\<close>

text \<open>
  No sequence of \<open>spaceSeqs\<close> is the start of another, so the one \<open>stripSeqs\<close> finds
  is the only one that fits. Some values of \<open>TrimSpace\<close>: white space of one and of
  several bytes goes, at both ends; a byte that is no valid UTF-8 stays.
\<close>

lemma spaceSeqs_prefix_free:
  "list_all (\<lambda>q. list_all (\<lambda>p. p = q \<or> \<not> HasPrefix q p) spaceSeqs) spaceSeqs"
  by code_simp

lemma TrimSpace_examples:
  "TrimSpace ('' a b '' @ [CHR 0x09, CHR 0xE2, CHR 0x80, CHR 0x83]) = ''a b'' \<and>
   TrimSpace ([CHR 0xC2, CHR 0x85, CHR 0xE3, CHR 0x80, CHR 0x80] @ ''x'' @ [CHR 0xC2])
     = ''x'' @ [CHR 0xC2] \<and>
   TrimSpace [CHR 0x80, CHR 0x20] = [CHR 0x80] \<and>
   TrimSpace [CHR 0x0A, CHR 0x0D] = []"
  by code_simp

lemma spaceSeqs_nonempty: "q \<in> set spaceSeqs \<Longrightarrow> q \<noteq> []"
  by (auto simp: spaceSeqs_def)

lemma asciiSpace_seq: "asciiSpace c \<Longrightarrow> [c] \<in> set spaceSeqs \<and> \<not> digit7 c"
  by (auto simp: spaceSeqs_def asciiSpace_def)

lemma spaceSeqs_ascii:
  "q \<in> set spaceSeqs \<Longrightarrow> c \<in> set q \<Longrightarrow> \<not> digit7 c \<Longrightarrow> q = [c] \<and> asciiSpace c"
proof -
  have "list_all (\<lambda>q. list_all (\<lambda>c. digit7 c \<or> (q = [c] \<and> asciiSpace c)) q) spaceSeqs"
    by code_simp
  then show "q \<in> set spaceSeqs \<Longrightarrow> c \<in> set q \<Longrightarrow> \<not> digit7 c \<Longrightarrow> q = [c] \<and> asciiSpace c"
    unfolding list_all_iff by blast
qed

lemma stripSeqs_None:
  "\<forall>q \<in> set qs. q \<noteq> [] \<longrightarrow> \<not> HasPrefix s q \<Longrightarrow> stripSeqs qs s = s"
proof -
  assume "\<forall>q \<in> set qs. q \<noteq> [] \<longrightarrow> \<not> HasPrefix s q"
  then have "find (\<lambda>q. q \<noteq> [] \<and> HasPrefix s q) qs = None"
    by (auto simp: find_None_iff)
  then show ?thesis by (subst stripSeqs.simps) simp
qed

lemma stripSeqs_drop: "\<exists>n. stripSeqs qs s = drop n s"
proof (induction qs s rule: stripSeqs.induct)
  case (1 qs s)
  show ?case
  proof (cases "find (\<lambda>q. q \<noteq> [] \<and> HasPrefix s q) qs")
    case None
    then have "stripSeqs qs s = drop 0 s" by (subst stripSeqs.simps) simp
    then show ?thesis by blast
  next
    case (Some q)
    from "1.IH"[OF Some] obtain n where "stripSeqs qs (drop (length q) s) = drop n (drop (length q) s)"
      by blast
    with Some have "stripSeqs qs s = drop (n + length q) s"
      by (subst stripSeqs.simps) simp
    then show ?thesis by blast
  qed
qed

lemma stripSeqs_fixed:
  "q \<in> set qs \<Longrightarrow> q \<noteq> [] \<Longrightarrow> \<not> HasPrefix (stripSeqs qs s) q"
proof (induction qs s rule: stripSeqs.induct)
  case (1 qs s)
  show ?case
  proof (cases "find (\<lambda>q. q \<noteq> [] \<and> HasPrefix s q) qs")
    case None
    then have "stripSeqs qs s = s" by (subst stripSeqs.simps) simp
    moreover from None "1.prems" have "\<not> HasPrefix s q"
      by (auto simp: find_None_iff)
    ultimately show ?thesis by simp
  next
    case (Some q')
    then have "stripSeqs qs s = stripSeqs qs (drop (length q') s)"
      by (subst stripSeqs.simps) simp
    with "1.IH"[OF Some "1.prems"] show ?thesis by simp
  qed
qed

lemma stripSeqs_Nil: "stripSeqs qs [] = []"
  using stripSeqs_drop[of qs "[]"] by auto

lemma find_SomeD: "find P xs = Some x \<Longrightarrow> P x \<and> x \<in> set xs"
  by (induction xs) (auto split: if_splits)

lemma HasPrefix_Cons_hd: "q \<noteq> [] \<Longrightarrow> HasPrefix (c # s) q \<Longrightarrow> c \<in> set q"
  by (cases q) (auto simp: HasPrefix_def)

lemma HasPrefix_length: "HasPrefix s q \<Longrightarrow> length q \<le> length s"
proof -
  assume "HasPrefix s q"
  then have "length (take (length q) s) = length q" by (simp add: HasPrefix_def)
  then show ?thesis by simp
qed

lemma stripSeqs_Cons:
  assumes "[c] \<in> set qs" and "\<forall>q \<in> set qs. c \<in> set q \<longrightarrow> q = [c]"
  shows "stripSeqs qs (c # s) = stripSeqs qs s"
proof -
  have "find (\<lambda>q. q \<noteq> [] \<and> HasPrefix (c # s) q) qs \<noteq> None"
    using assms(1) by (auto simp: find_None_iff HasPrefix_def)
  then obtain q where q: "find (\<lambda>q. q \<noteq> [] \<and> HasPrefix (c # s) q) qs = Some q"
    by auto
  from find_SomeD[OF q] have "q \<in> set qs" "q \<noteq> []" "HasPrefix (c # s) q"
    by simp_all
  then have "c \<in> set q"
    using HasPrefix_Cons_hd by blast
  with assms(2) \<open>q \<in> set qs\<close> have "q = [c]" by blast
  with q show ?thesis by (subst stripSeqs.simps) simp
qed

lemma HasPrefix_snoc:
  assumes "q \<in> set spaceSeqs" and "\<not> digit7 c" and "s \<noteq> []"
  shows "HasPrefix (s @ [c]) q = HasPrefix s q"
proof (cases "length q \<le> length s")
  case True
  then show ?thesis by (simp add: HasPrefix_def)
next
  case False
  then have n: "\<not> HasPrefix s q" by (auto simp: HasPrefix_def)
  have "\<not> HasPrefix (s @ [c]) q"
  proof
    assume "HasPrefix (s @ [c]) q"
    with False have "q = s @ [c]" by (simp add: HasPrefix_def)
    then have "c \<in> set q" by simp
    with assms(1,2) have "q = [c]" using spaceSeqs_ascii by blast
    with \<open>q = s @ [c]\<close> assms(3) show False by simp
  qed
  with n show ?thesis by simp
qed

lemma stripSeqs_snoc:
  assumes "asciiSpace c"
  shows "stripSeqs spaceSeqs (s @ [c]) =
         (if stripSeqs spaceSeqs s = [] then [] else stripSeqs spaceSeqs s @ [c])"
proof (induction "length s" arbitrary: s rule: less_induct)
  case less
  have c: "[c] \<in> set spaceSeqs" "\<not> digit7 c"
    using asciiSpace_seq[OF assms] by auto
  show ?case
  proof (cases "s = []")
    case True
    have "stripSeqs spaceSeqs [c] = stripSeqs spaceSeqs []"
      using c spaceSeqs_ascii by (intro stripSeqs_Cons) blast+
    with True show ?thesis by (simp add: stripSeqs_Nil)
  next
    case False
    have eq: "find (\<lambda>q. q \<noteq> [] \<and> HasPrefix (s @ [c]) q) spaceSeqs =
              find (\<lambda>q. q \<noteq> [] \<and> HasPrefix s q) spaceSeqs"
      using HasPrefix_snoc[OF _ c(2) False] by (intro find_cong) auto
    show ?thesis
    proof (cases "find (\<lambda>q. q \<noteq> [] \<and> HasPrefix s q) spaceSeqs")
      case None
      then have "stripSeqs spaceSeqs s = s" "stripSeqs spaceSeqs (s @ [c]) = s @ [c]"
        using eq by (subst stripSeqs.simps, simp)+
      with False show ?thesis by simp
    next
      case (Some q)
      from find_SomeD[OF Some] have q: "q \<noteq> []" "HasPrefix s q" by simp_all
      then have len: "length q \<le> length s"
        using HasPrefix_length by blast
      have 1: "stripSeqs spaceSeqs s = stripSeqs spaceSeqs (drop (length q) s)"
        using Some by (subst stripSeqs.simps) simp
      have 2: "stripSeqs spaceSeqs (s @ [c]) = stripSeqs spaceSeqs (drop (length q) s @ [c])"
        using Some eq len by (subst stripSeqs.simps) simp
      have "length (drop (length q) s) < length s"
        using q(1) False by simp
      from less.hyps[OF this] show ?thesis by (simp add: 1 2)
    qed
  qed
qed

lemma revSeqs_single: "asciiSpace c \<Longrightarrow> [c] \<in> set (map rev spaceSeqs)"
proof -
  assume "asciiSpace c"
  then have "[c] \<in> set spaceSeqs" using asciiSpace_seq by blast
  then have "rev [c] \<in> rev ` set spaceSeqs" by (rule imageI)
  then show ?thesis by simp
qed

lemma revSeqs_ascii:
  assumes "asciiSpace c"
  shows "\<forall>q \<in> set (map rev spaceSeqs). c \<in> set q \<longrightarrow> q = [c]"
proof (intro ballI impI)
  fix q assume "q \<in> set (map rev spaceSeqs)" "c \<in> set q"
  then obtain q0 where q0: "q0 \<in> set spaceSeqs" "q = rev q0" "c \<in> set q0" by auto
  moreover have "\<not> digit7 c" using asciiSpace_seq[OF assms] by simp
  ultimately have "q0 = [c]" using spaceSeqs_ascii by blast
  with q0(2) show "q = [c]" by simp
qed

lemma TrimSpace_Nil: "TrimSpace [] = []"
  by (simp add: TrimSpace_def stripSeqs_Nil)

lemma TrimSpace_Cons_space: "asciiSpace c \<Longrightarrow> TrimSpace (c # s) = TrimSpace s"
proof -
  assume c: "asciiSpace c"
  have "stripSeqs spaceSeqs (c # s) = stripSeqs spaceSeqs s"
    using asciiSpace_seq[OF c] spaceSeqs_ascii by (intro stripSeqs_Cons) blast+
  then show ?thesis by (simp add: TrimSpace_def)
qed

lemma TrimSpace_snoc_space: "asciiSpace c \<Longrightarrow> TrimSpace (s @ [c]) = TrimSpace s"
proof -
  assume c: "asciiSpace c"
  show ?thesis
  proof (cases "stripSeqs spaceSeqs s = []")
    case True
    with stripSeqs_snoc[OF c, of s] show ?thesis by (simp add: TrimSpace_def)
  next
    case False
    with stripSeqs_snoc[OF c, of s]
    have "rev (stripSeqs spaceSeqs (s @ [c])) = c # rev (stripSeqs spaceSeqs s)" by simp
    moreover have "stripSeqs (map rev spaceSeqs) (c # rev (stripSeqs spaceSeqs s)) =
        stripSeqs (map rev spaceSeqs) (rev (stripSeqs spaceSeqs s))"
      using revSeqs_single[OF c] revSeqs_ascii[OF c] by (rule stripSeqs_Cons)
    ultimately show ?thesis by (simp add: TrimSpace_def)
  qed
qed

lemma set_TrimSpace: "set (TrimSpace s) \<subseteq> set s"
proof -
  obtain n where n: "stripSeqs spaceSeqs s = drop n s"
    using stripSeqs_drop by blast
  obtain m where m: "stripSeqs (map rev spaceSeqs) (rev (drop n s)) = drop m (rev (drop n s))"
    using stripSeqs_drop by blast
  have "set (drop m (rev (drop n s))) \<subseteq> set (rev (drop n s))" by (rule set_drop_subset)
  also have "\<dots> \<subseteq> set s" using set_drop_subset[of n s] by simp
  finally show ?thesis by (simp add: TrimSpace_def n m)
qed

lemma TrimSpace_id: "\<not> startsSpace s \<Longrightarrow> \<not> endsSpace s \<Longrightarrow> TrimSpace s = s"
proof -
  assume a: "\<not> startsSpace s" "\<not> endsSpace s"
  from a(1) have 1: "stripSeqs spaceSeqs s = s"
    by (intro stripSeqs_None) (auto simp: startsSpace_def)
  from a(2) have "stripSeqs (map rev spaceSeqs) (rev s) = rev s"
    by (intro stripSeqs_None) (auto simp: endsSpace_def)
  with 1 show ?thesis by (simp add: TrimSpace_def)
qed

lemma TrimSpace_fixed: "TrimSpace s = s \<Longrightarrow> \<not> startsSpace s \<and> \<not> endsSpace s"
proof (cases "s = []")
  case True
  then show ?thesis
    using spaceSeqs_nonempty by (auto simp: startsSpace_def endsSpace_def HasPrefix_def)
next
  case False
  assume fx: "TrimSpace s = s"
  obtain n where n: "stripSeqs spaceSeqs s = drop n s"
    using stripSeqs_drop by blast
  obtain m where m: "stripSeqs (map rev spaceSeqs) (rev (drop n s)) = drop m (rev (drop n s))"
    using stripSeqs_drop by blast
  have "length (TrimSpace s) = length s - n - m"
    by (simp add: TrimSpace_def n m)
  with fx have e: "length s - n - m = length s" by simp
  have p: "0 < length s" using False by simp
  from e p have "n = 0" "m = 0" by arith+
  with n m have 1: "stripSeqs spaceSeqs s = s"
    and 2: "stripSeqs (map rev spaceSeqs) (rev s) = rev s" by simp_all
  have "\<not> startsSpace s"
    using stripSeqs_fixed[of _ spaceSeqs s] spaceSeqs_nonempty
    by (auto simp: startsSpace_def 1)
  moreover have "\<not> endsSpace s"
  proof
    assume "endsSpace s"
    then obtain q where q: "q \<in> set spaceSeqs" "HasPrefix (rev s) (rev q)"
      by (auto simp: endsSpace_def)
    then have "rev q \<in> set (map rev spaceSeqs)" "rev q \<noteq> []"
      using spaceSeqs_nonempty by auto
    from stripSeqs_fixed[OF this, of "rev s"] q(2) show False by (simp add: 2)
  qed
  ultimately show ?thesis by simp
qed

lemma startsSpace_ascii: "\<not> digit7 c \<Longrightarrow> \<not> asciiSpace c \<Longrightarrow> \<not> startsSpace (c # s)"
proof
  assume a: "\<not> digit7 c" "\<not> asciiSpace c" "startsSpace (c # s)"
  then obtain q where q: "q \<in> set spaceSeqs" "HasPrefix (c # s) q"
    by (auto simp: startsSpace_def)
  with spaceSeqs_nonempty have "c \<in> set q"
    using HasPrefix_Cons_hd by blast
  with q(1) a(1,2) show False using spaceSeqs_ascii by blast
qed

lemma endsSpace_ascii: "\<not> digit7 c \<Longrightarrow> \<not> asciiSpace c \<Longrightarrow> \<not> endsSpace (s @ [c])"
proof
  assume a: "\<not> digit7 c" "\<not> asciiSpace c" "endsSpace (s @ [c])"
  then obtain q where q: "q \<in> set spaceSeqs" "HasPrefix (c # rev s) (rev q)"
    by (auto simp: endsSpace_def)
  moreover have "rev q \<noteq> []" using q(1) spaceSeqs_nonempty by simp
  ultimately have "c \<in> set (rev q)"
    using HasPrefix_Cons_hd by blast
  then have "c \<in> set q" by simp
  with q(1) a(1,2) show False using spaceSeqs_ascii by blast
qed

lemma endsSpace_after_ascii:
  assumes "t \<noteq> []" and "\<not> digit7 a" and "endsSpace (x @ a # t)"
  shows "endsSpace t"
proof -
  from assms(3) obtain q where q: "q \<in> set spaceSeqs" "HasPrefix (rev t @ a # rev x) (rev q)"
    by (auto simp: endsSpace_def)
  show ?thesis
  proof (cases "length q \<le> length t")
    case True
    with q show ?thesis by (auto simp: endsSpace_def HasPrefix_def)
  next
    case False
    with q(2) have "rev q = rev t @ take (length q - length t) (a # rev x)"
      by (simp add: HasPrefix_def)
    moreover from False obtain k where "length q - length t = Suc k"
      by (cases "length q - length t") auto
    ultimately have "a \<in> set (rev q)" by simp
    then have "a \<in> set q" by simp
    with q(1) assms(2) have "q = [a]" using spaceSeqs_ascii by blast
    with False assms(1) show ?thesis by (cases t) auto
  qed
qed

subsection \<open>What each step does to the container\<close>

lemma writeLoop_None:
  "snd (writeLoop lib ev n ks buf) = None \<Longrightarrow>
   fst (writeLoop lib ev n ks buf) = buf @ concat (map (MarshalWithComment lib) ks)"
  by (induction ks arbitrary: n buf) (auto split: option.splits)

lemma isDuplicate_iff:
  "isDuplicate lib m keys = (\<exists>k \<in> set keys. m = keyMarshal lib (Key k))"
  by (induction keys) auto

lemma lxcPull_remote: "remote (snd (lxcPull ev dst src w)) = remote w"
  by (simp add: lxcPull_def Let_def split: option.splits)

lemma rmFile_remote: "remote (rmFile ev f w) = remote w"
  by (simp add: rmFile_def perr_def Let_def split: option.splits)

lemma writeAuthorizedKeys_remote:
  "writeAuthorizedKeys lib ev f keys dst w = (err, w') \<Longrightarrow>
   (case err of
      Some e \<Rightarrow> remote w' = remote w
    | None \<Rightarrow> remote w' = (remote w)(dst \<mapsto> concat (map (MarshalWithComment lib) keys)))"
  using writeLoop_None[of lib ev 0 keys "[]"]
  by (auto simp: writeAuthorizedKeys_def Let_def lxcPush_def
      split: option.splits prod.splits if_splits)

lemma realmainBody_remote:
  "realmainBody lib ev c key tmp w = (err, w') \<Longrightarrow>
   (case err of
      Some e \<Rightarrow> remote w' = remote w
    | None \<Rightarrow> (\<exists>keys. remote w' =
         (remote w)(authKeysPath c \<mapsto> concat (map (MarshalWithComment lib) (keys @ [key])))))"
  apply (simp add: realmainBody_def split: prod.splits option.splits if_splits)
  apply (intro conjI allI impI)
  using lxcPull_remote[of ev tmp "authKeysPath c" w]
      apply (auto dest!: writeAuthorizedKeys_remote)
  done

subsection \<open>Reading lines\<close>

lemma readLoop_end:
  "IndexByte data (CHR 0x0A) = None \<Longrightarrow>
   readLoop lib (data, fin) keys = (if fin = EOF then (keys, None) else ([], Some fin))"
  by (subst readLoop.simps) (simp add: ReadBytes_def)

lemma readLoop_line:
  "IndexByte data (CHR 0x0A) = Some i \<Longrightarrow>
   readLoop lib (data, fin) keys =
     (case parseAuthKey lib (take (Suc i) data) of
        Inl e \<Rightarrow> ([], Some e)
      | Inr k \<Rightarrow> readLoop lib (drop (Suc i) data, fin) (keys @ [k]))"
  by (subst readLoop.simps) (simp add: ReadBytes_def)

lemma parseAuthKey_error:
  "parseAuthKey lib line = Inl e \<Longrightarrow>
   e = errUnsupportedKeyAlgo \<or> e = ErrParsingKey (ErrOS ''ssh: no key found'')"
  by (auto simp: parseAuthKey_def Let_def split: if_splits option.splits)

lemma readLoop_error:
  "snd (readLoop lib (data, fin) keys) = Some e \<Longrightarrow>
   fst (readLoop lib (data, fin) keys) = [] \<and>
   (e = fin \<or> e = errUnsupportedKeyAlgo \<or> e = ErrParsingKey (ErrOS ''ssh: no key found''))"
proof (induction "length data" arbitrary: data keys rule: less_induct)
  case less
  show ?case
  proof (cases "IndexByte data (CHR 0x0A)")
    case None
    with less.prems show ?thesis
      by (simp add: readLoop_end split: if_splits)
  next
    case (Some i)
    then have short: "length (drop (Suc i) data) < length data"
      by (auto dest: IndexByte_less)
    show ?thesis
    proof (cases "parseAuthKey lib (take (Suc i) data)")
      case (Inl e')
      with Some less.prems show ?thesis
        by (auto simp: readLoop_line dest: parseAuthKey_error)
    next
      case (Inr k)
      with Some less.prems less.hyps[OF short, of "keys @ [k]"] show ?thesis
        by (simp add: readLoop_line)
    qed
  qed
qed

lemma realmain_unfold:
  assumes "ReadFile w (keyPath ev kf) = Inr keybuf"
    and "parseAuthKey lib keybuf = Inr key"
    and "tempFileErr ev = None"
  shows "realmain lib ev c kf w =
    (fst (realmainBody lib ev c key (tmpName ev) (w\<lparr>files := (files w)(tmpName ev \<mapsto> [])\<rparr>)),
     rmFile ev (tmpName ev)
       (snd (realmainBody lib ev c key (tmpName ev) (w\<lparr>files := (files w)(tmpName ev \<mapsto> [])\<rparr>))))"
  using assms by (simp add: realmain_def TempFile_def split: prod.splits)

lemma lxcPull_ok:
  "pullErr ev = None \<Longrightarrow> remote w src = Some content \<Longrightarrow>
   lxcPull ev dst src w =
     (None, w\<lparr>calls := calls w @ [Exec [''lxc'', ''file'', ''pull'', src, dst]],
              files := (files w)(dst \<mapsto> content)\<rparr>)"
  by (simp add: lxcPull_def Let_def)

lemma IndexByte_None_iff: "IndexByte s c = None \<longleftrightarrow> c \<notin> set s"
  by (induction s) (auto split: option.splits)

lemma IndexByte_Some:
  "IndexByte s c = Some i \<Longrightarrow> i < length s \<and> s ! i = c \<and> c \<notin> set (take i s)"
  by (induction s arbitrary: i) (auto split: if_splits option.splits)

lemma parseAuthorizedKey_comment:
  "parseAuthorizedKey lib inp = Some (k, c) \<Longrightarrow> set c \<subseteq> set inp"
proof -
  assume "parseAuthorizedKey lib inp = Some (k, c)"
  then have "c = TrimSpace (drop (case IndexAny (TrimSpace inp) [CHR '' '', CHR 0x09] of
                None \<Rightarrow> length (TrimSpace inp) | Some i \<Rightarrow> i) (TrimSpace inp))"
    by (auto simp: parseAuthorizedKey_def Let_def split: option.splits)
  then obtain i where "c = TrimSpace (drop i (TrimSpace inp))" ..
  moreover have "set (TrimSpace (drop i (TrimSpace inp))) \<subseteq> set (drop i (TrimSpace inp))"
    by (rule set_TrimSpace)
  moreover have "set (drop i (TrimSpace inp)) \<subseteq> set (TrimSpace inp)"
    by (rule set_drop_subset)
  ultimately show ?thesis using set_TrimSpace[of inp] by blast
qed

lemma parseLine_comment:
  "parseLine lib inp = Some (k, c) \<Longrightarrow> set c \<subseteq> set inp"
proof -
  assume a: "parseLine lib inp = Some (k, c)"
  define cut where "cut = (case IndexByte inp (CHR 0x0D) of None \<Rightarrow> inp | Some e \<Rightarrow> take e inp)"
  have cut: "set (TrimSpace cut) \<subseteq> set inp"
    using set_TrimSpace[of cut] set_take_subset[of _ inp]
    by (auto simp: cut_def split: option.splits)
  from a obtain j where "parseAuthorizedKey lib (drop j (TrimSpace cut)) = Some (k, c)"
    unfolding parseLine_def cut_def[symmetric] Let_def
    by (auto split: if_splits option.splits)
  from parseAuthorizedKey_comment[OF this] have "set c \<subseteq> set (drop j (TrimSpace cut))" .
  also have "\<dots> \<subseteq> set (TrimSpace cut)" by (rule set_drop_subset)
  finally show ?thesis using cut by blast
qed

lemma ParseAuthorizedKey_comment:
  "ParseAuthorizedKey lib inp = Some (k, c) \<Longrightarrow> CHR 0x0A \<notin> set c"
proof (induction lib inp rule: ParseAuthorizedKey.induct)
  case (1 lib inp)
  show ?case
  proof (cases "IndexByte inp (CHR 0x0A)")
    case None
    with "1.prems" have "parseLine lib inp = Some (k, c)"
      by (subst (asm) ParseAuthorizedKey.simps) (auto split: if_splits)
    with None show ?thesis
      using parseLine_comment IndexByte_None_iff by fastforce
  next
    case (Some e)
    show ?thesis
    proof (cases "parseLine lib (take e inp)")
      case None
      with Some "1.prems" have "ParseAuthorizedKey lib (drop (Suc e) inp) = Some (k, c)"
        by (subst (asm) ParseAuthorizedKey.simps) (auto split: if_splits)
      with "1.IH"[OF _ Some None] "1.prems" show ?thesis
        by (cases "length inp = 0") (auto simp: ParseAuthorizedKey.simps)
    next
      case (Some r)
      with \<open>IndexByte inp (CHR 0x0A) = Some e\<close> "1.prems" have "parseLine lib (take e inp) = Some (k, c)"
        by (subst (asm) ParseAuthorizedKey.simps) (auto split: if_splits)
      with IndexByte_Some[OF \<open>IndexByte inp (CHR 0x0A) = Some e\<close>] show ?thesis
        using parseLine_comment by fastforce
    qed
  qed
qed

lemma parseAuthKey_comment:
  "parseAuthKey lib buf = Inr key \<Longrightarrow> CHR 0x0A \<notin> set (Comment key)"
  by (auto simp: parseAuthKey_def Let_def split: if_splits option.splits
      dest: ParseAuthorizedKey_comment)


lemma writeAuthorizedKeys_ok_remote:
  "writeAuthorizedKeys lib ev f keys dst w = (None, w') \<Longrightarrow>
   remote w' dst = Some (concat (map (MarshalWithComment lib) keys))"
  by (drule writeAuthorizedKeys_remote) simp

lemma parseAuthKey_unsupported:
  "\<not> hasSupportedPrefix line \<Longrightarrow> parseAuthKey lib line = Inl errUnsupportedKeyAlgo"
  by (simp add: parseAuthKey_def hasSupportedPrefix_def supportedAlgos_def)

lemma IndexByte_append_Some:
  "IndexByte a c = Some i \<Longrightarrow> IndexByte (a @ b) c = Some i"
  by (induction a arbitrary: i) (auto split: if_splits option.splits)

lemma IndexByte_first:
  "c \<notin> set a \<Longrightarrow> IndexByte (a @ c # b) c = Some (length a)"
  by (induction a) auto

lemma IndexByte_last:
  "a \<noteq> [] \<Longrightarrow> last a = c \<Longrightarrow> \<exists>i. IndexByte a c = Some i"
  using IndexByte_None_iff[of a c] by (cases "IndexByte a c") auto

lemma readLoop_append:
  "pre = [] \<or> last pre = CHR 0x0A \<Longrightarrow> readLoop lib (pre, EOF) acc = (keys, None) \<Longrightarrow>
   readLoop lib (pre @ s, fin) acc = readLoop lib (s, fin) keys"
proof (induction "length pre" arbitrary: pre acc rule: less_induct)
  case less
  show ?case
  proof (cases "pre = []")
    case True
    with less.prems(2) show ?thesis by (simp add: readLoop_end)
  next
    case False
    with less.prems(1) obtain i where i: "IndexByte pre (CHR 0x0A) = Some i"
      using IndexByte_last by blast
    then have il: "i < length pre" by (rule IndexByte_less)
    have i2: "IndexByte (pre @ s) (CHR 0x0A) = Some i"
      using i by (rule IndexByte_append_Some)
    have tk: "take (Suc i) (pre @ s) = take (Suc i) pre"
      and dr: "drop (Suc i) (pre @ s) = drop (Suc i) pre @ s"
      using il by simp_all
    show ?thesis
    proof (cases "parseAuthKey lib (take (Suc i) pre)")
      case (Inl e)
      with less.prems(2) i show ?thesis by (simp add: readLoop_line)
    next
      case (Inr k)
      have rest: "drop (Suc i) pre = [] \<or> last (drop (Suc i) pre) = CHR 0x0A"
        using less.prems(1) False by (cases "drop (Suc i) pre = []") auto
      have "readLoop lib (drop (Suc i) pre, EOF) (acc @ [k]) = (keys, None)"
        using less.prems(2) i Inr by (simp add: readLoop_line)
      from less.hyps[OF _ rest this] il
      show ?thesis using i2 Inr by (simp add: readLoop_line tk dr)
    qed
  qed
qed

text \<open>
  Bytes after the last newline change nothing: whatever follows the last complete line
  is read by \<^verbatim>\<open>ReadBytes\<close>, returned with \<open>EOF\<close>, and never parsed.
\<close>

lemma readLoop_unterminated_tail:
  "pre = [] \<or> last pre = CHR 0x0A \<Longrightarrow> CHR 0x0A \<notin> set tail \<Longrightarrow>
   readLoop lib (pre @ tail, EOF) acc = readLoop lib (pre, EOF) acc"
proof (induction "length pre" arbitrary: pre acc rule: less_induct)
  case less
  show ?case
  proof (cases "pre = []")
    case True
    with less.prems(2) show ?thesis
      by (simp add: readLoop_end IndexByte_None_iff)
  next
    case False
    with less.prems(1) obtain i where i: "IndexByte pre (CHR 0x0A) = Some i"
      using IndexByte_last by blast
    then have il: "i < length pre" by (rule IndexByte_less)
    have i2: "IndexByte (pre @ tail) (CHR 0x0A) = Some i"
      using i by (rule IndexByte_append_Some)
    have tk: "take (Suc i) (pre @ tail) = take (Suc i) pre"
      and dr: "drop (Suc i) (pre @ tail) = drop (Suc i) pre @ tail"
      using il by simp_all
    have rest: "drop (Suc i) pre = [] \<or> last (drop (Suc i) pre) = CHR 0x0A"
      using less.prems(1) False by (cases "drop (Suc i) pre = []") auto
    show ?thesis
    proof (cases "parseAuthKey lib (take (Suc i) pre)")
      case (Inl e)
      then show ?thesis by (simp only: readLoop_line[OF i] readLoop_line[OF i2] tk sum.case)
    next
      case (Inr k)
      have "length (drop (Suc i) pre) < length pre" using il by simp
      from less.hyps[OF this rest less.prems(2), of "acc @ [k]"]
      show ?thesis using Inr by (simp only: readLoop_line[OF i] readLoop_line[OF i2] tk dr sum.case)
    qed
  qed
qed

lemma readAuthorizedKeys_unterminated_tail:
  "pre = [] \<or> last pre = CHR 0x0A \<Longrightarrow> CHR 0x0A \<notin> set tail \<Longrightarrow>
   readAuthorizedKeys lib (pre @ tail, EOF) = readAuthorizedKeys lib (pre, EOF)"
  by (simp add: readAuthorizedKeys_def readLoop_unterminated_tail)

subsection \<open>White space and indices\<close>

lemma IndexAny_None_iff: "IndexAny s cs = None \<longleftrightarrow> set s \<inter> set cs = {}"
  by (induction s) (auto split: option.splits)

lemma IndexAny_first:
  "set a \<inter> set cs = {} \<Longrightarrow> c \<in> set cs \<Longrightarrow> IndexAny (a @ c # b) cs = Some (length a)"
  by (induction a) auto

subsection \<open>Calls and standard error\<close>

lemma lxcPull_calls: "\<exists>cs. calls (snd (lxcPull ev dst src w)) = calls w @ cs"
  by (simp add: lxcPull_def Let_def split: option.splits)

lemma writeAuthorizedKeys_calls:
  "\<exists>cs. calls (snd (writeAuthorizedKeys lib ev f keys dst w)) = calls w @ cs"
  by (simp add: writeAuthorizedKeys_def lxcPush_def Let_def split: option.splits prod.splits)

lemma realmainBody_calls:
  "\<exists>cs. calls (snd (realmainBody lib ev c key tmp w)) = calls w @ cs"
proof -
  obtain e1 w1 where p: "lxcPull ev tmp (authKeysPath c) w = (e1, w1)"
    by (cases "lxcPull ev tmp (authKeysPath c) w") auto
  from lxcPull_calls[of ev tmp "authKeysPath c" w] p
  obtain cs1 where c1: "calls w1 = calls w @ cs1" by auto
  show ?thesis
  proof (cases e1)
    case (Some e)
    with p c1 show ?thesis by (simp add: realmainBody_def)
  next
    case None
    have "\<exists>cs. calls (snd (writeAuthorizedKeys lib ev tmp ks (authKeysPath c) w1)) = calls w @ cs" for ks
      using writeAuthorizedKeys_calls[of lib ev tmp ks "authKeysPath c" w1] c1 by auto
    with None p c1 show ?thesis
      apply (auto simp: realmainBody_def split: prod.splits option.splits)
       apply (metis snd_conv)+
      done
  qed
qed

lemma lxcPull_stderr: "stderr (snd (lxcPull ev dst src w)) = stderr w"
  by (simp add: lxcPull_def Let_def split: option.splits)

lemma writeAuthorizedKeys_stderr:
  "stderr (snd (writeAuthorizedKeys lib ev f keys dst w)) = stderr w"
  by (simp add: writeAuthorizedKeys_def lxcPush_def Let_def split: option.splits prod.splits)

lemma realmainBody_stderr: "stderr (snd (realmainBody lib ev c key tmp w)) = stderr w"
proof -
  obtain e1 w1 where p: "lxcPull ev tmp (authKeysPath c) w = (e1, w1)"
    by (cases "lxcPull ev tmp (authKeysPath c) w") auto
  with lxcPull_stderr[of ev tmp "authKeysPath c" w] have s1: "stderr w1 = stderr w" by simp
  have "stderr (snd (writeAuthorizedKeys lib ev tmp ks (authKeysPath c) w1)) = stderr w" for ks
    using s1 by (simp add: writeAuthorizedKeys_stderr)
  with p s1 show ?thesis
    apply (auto simp: realmainBody_def split: prod.splits option.splits)
     apply (metis snd_conv)+
    done
qed

lemma realmain_stderr:
  "closeErr ev = None \<Longrightarrow> removeErr ev = None \<Longrightarrow>
   stderr (snd (realmain lib ev c kf w)) = stderr w"
  using realmainBody_stderr[of lib ev c _ "tmpName ev" "w\<lparr>files := (files w)(tmpName ev \<mapsto> [])\<rparr>"]
  apply (auto simp: realmain_def TempFile_def rmFile_def Let_def
      split: sum.splits option.splits prod.splits)
  apply (metis snd_conv)
  done

subsection \<open>Encoding one record and reading it back\<close>

lemma asciiSpace_blank: "asciiSpace (CHR '' '')" "asciiSpace (CHR 0x09)" "asciiSpace (CHR 0x0A)" "asciiSpace (CHR 0x0D)"
  by (simp_all add: asciiSpace_def)

lemma blank_ascii: "\<not> digit7 (CHR '' '')"
  by simp

lemma supportedAlgos_chars:
  "t \<in> set supportedAlgos \<Longrightarrow>
   t \<noteq> [] \<and> hd t \<noteq> CHR ''#'' \<and> (\<forall>c \<in> set t. \<not> digit7 c \<and> \<not> asciiSpace c)"
proof -
  have "list_all (\<lambda>t. t \<noteq> [] \<and> hd t \<noteq> CHR ''#'' \<and> list_all (\<lambda>c. \<not> digit7 c \<and> \<not> asciiSpace c) t)
          supportedAlgos"
    by code_simp
  then show "t \<in> set supportedAlgos \<Longrightarrow>
      t \<noteq> [] \<and> hd t \<noteq> CHR ''#'' \<and> (\<forall>c \<in> set t. \<not> digit7 c \<and> \<not> asciiSpace c)"
    unfolding list_all_iff by blast
qed

lemma plain_no_startsSpace:
  "s \<noteq> [] \<Longrightarrow> \<not> digit7 (hd s) \<Longrightarrow> \<not> asciiSpace (hd s) \<Longrightarrow> \<not> startsSpace (s @ x)"
  by (cases s) (auto simp: startsSpace_ascii)

lemma plain_no_endsSpace:
  "s \<noteq> [] \<Longrightarrow> \<not> digit7 (last s) \<Longrightarrow> \<not> asciiSpace (last s) \<Longrightarrow> \<not> endsSpace (x @ s)"
proof -
  assume a: "s \<noteq> []" "\<not> digit7 (last s)" "\<not> asciiSpace (last s)"
  then have "x @ s = (x @ butlast s) @ [last s]" by simp
  with endsSpace_ascii[OF a(2,3), of "x @ butlast s"] show ?thesis by simp
qed

lemma encoded_key_text:
  assumes "t \<in> set supportedAlgos" and "b \<noteq> []"
    and "\<forall>c \<in> set b. \<not> digit7 c \<and> \<not> asciiSpace c"
  shows "TrimSpace (t @ CHR '' '' # b) = t @ CHR '' '' # b"
    and "TrimSpace (t @ CHR '' '' # b @ [CHR 0x0A]) = t @ CHR '' '' # b"
proof -
  have t: "t \<noteq> []" "\<not> digit7 (hd t)" "\<not> asciiSpace (hd t)"
    using supportedAlgos_chars[OF assms(1)] by (auto simp: neq_Nil_conv)
  have b: "\<not> digit7 (last b)" "\<not> asciiSpace (last b)"
    using assms(2,3) by auto
  have "\<not> startsSpace (t @ CHR '' '' # b)"
    using t by (rule plain_no_startsSpace)
  moreover have "\<not> endsSpace ((t @ [CHR '' '']) @ b)"
    using assms(2) b by (rule plain_no_endsSpace)
  ultimately show 1: "TrimSpace (t @ CHR '' '' # b) = t @ CHR '' '' # b"
    by (intro TrimSpace_id) simp_all
  have "TrimSpace ((t @ CHR '' '' # b) @ [CHR 0x0A]) = TrimSpace (t @ CHR '' '' # b)"
    by (rule TrimSpace_snoc_space) (rule asciiSpace_blank)
  with 1 show "TrimSpace (t @ CHR '' '' # b @ [CHR 0x0A]) = t @ CHR '' '' # b"
    by simp
qed

lemma trimmed_after_blank:
  assumes "TrimSpace c = c" and "c \<noteq> []"
    and "x \<noteq> []" and "\<not> digit7 (hd x)" and "\<not> asciiSpace (hd x)"
  shows "TrimSpace (x @ CHR '' '' # c) = x @ CHR '' '' # c"
proof -
  have "\<not> endsSpace c" using assms(1) TrimSpace_fixed by blast
  then have "\<not> endsSpace (x @ CHR '' '' # c)"
    using endsSpace_after_ascii[OF assms(2) blank_ascii] by blast
  moreover have "\<not> startsSpace (x @ CHR '' '' # c)"
    using assms(3-5) by (rule plain_no_startsSpace)
  ultimately show ?thesis by (rule TrimSpace_id[rotated])
qed

lemma parseAuthorizedKey_field:
  assumes "b \<noteq> []" and "\<forall>c \<in> set b. \<not> digit7 c \<and> \<not> asciiSpace c"
    and "b64decode lib b = Some wire" and "ParsePublicKey lib wire = Some k"
    and "TrimSpace c = c"
  shows "parseAuthorizedKey lib (CHR '' '' # b @ (if c = [] then [] else CHR '' '' # c)) = Some (k, c)"
proof -
  have hb: "\<not> digit7 (hd b)" "\<not> asciiSpace (hd b)" "\<not> digit7 (last b)" "\<not> asciiSpace (last b)"
    using assms(1,2) by auto
  have nb: "set b \<inter> set [CHR '' '', CHR 0x09] = {}"
    using assms(2) asciiSpace_blank by auto
  show ?thesis
  proof (cases "c = []")
    case True
    have "\<not> startsSpace (b @ [])" using assms(1) hb(1,2) by (rule plain_no_startsSpace)
    moreover have "\<not> endsSpace ([] @ b)" using assms(1) hb(3,4) by (rule plain_no_endsSpace)
    ultimately have "TrimSpace b = b" by (intro TrimSpace_id) simp_all
    then have "TrimSpace (CHR '' '' # b) = b"
      by (simp add: TrimSpace_Cons_space asciiSpace_blank)
    moreover have "IndexAny b [CHR '' '', CHR 0x09] = None"
      using nb by (simp only: IndexAny_None_iff)
    ultimately show ?thesis
      using True assms(3,4) by (simp add: parseAuthorizedKey_def Let_def TrimSpace_Nil)
  next
    case False
    have "TrimSpace (CHR '' '' # b @ CHR '' '' # c) = TrimSpace (b @ CHR '' '' # c)"
      by (rule TrimSpace_Cons_space) (rule asciiSpace_blank)
    also have "\<dots> = b @ CHR '' '' # c"
      using assms(5) False assms(1) hb(1,2) by (rule trimmed_after_blank)
    finally have 1: "TrimSpace (CHR '' '' # b @ CHR '' '' # c) = b @ CHR '' '' # c" .
    have 2: "IndexAny (b @ CHR '' '' # c) [CHR '' '', CHR 0x09] = Some (length b)"
      using nb by (intro IndexAny_first) auto
    have 3: "TrimSpace (CHR '' '' # c) = c"
      using assms(5) by (simp add: TrimSpace_Cons_space asciiSpace_blank)
    show ?thesis
      using False assms(3,4) by (simp add: parseAuthorizedKey_def Let_def 1 2 3)
  qed
qed

lemma parseLine_encoded:
  assumes "t \<in> set supportedAlgos"
    and "b \<noteq> []" and "\<forall>c \<in> set b. \<not> digit7 c \<and> \<not> asciiSpace c"
    and "b64decode lib b = Some wire" and "ParsePublicKey lib wire = Some k"
    and "TrimSpace c = c" and "CHR 0x0D \<notin> set c"
  shows "parseLine lib (t @ CHR '' '' # b @ CHR '' '' # c) = Some (k, c)"
proof -
  define s where "s = (if c = [] then [] else CHR '' '' # c)"
  have t: "t \<noteq> []" "hd t \<noteq> CHR ''#''" "\<forall>x \<in> set t. \<not> digit7 x \<and> \<not> asciiSpace x"
    using supportedAlgos_chars[OF assms(1)] by auto
  have nocr: "IndexByte (t @ CHR '' '' # b @ CHR '' '' # c) (CHR 0x0D) = None"
    using t(3) assms(3,7) asciiSpace_blank by (auto simp: IndexByte_None_iff)
  have trim: "TrimSpace (t @ CHR '' '' # b @ CHR '' '' # c) = t @ CHR '' '' # b @ s"
  proof (cases "c = []")
    case True
    have "TrimSpace ((t @ CHR '' '' # b) @ [CHR '' '']) = TrimSpace (t @ CHR '' '' # b)"
      by (rule TrimSpace_snoc_space) (rule asciiSpace_blank)
    also have "\<dots> = t @ CHR '' '' # b"
      using assms(1-3) by (rule encoded_key_text(1))
    finally show ?thesis using True by (simp add: s_def)
  next
    case False
    have "t @ CHR '' '' # b \<noteq> []" "\<not> digit7 (hd (t @ CHR '' '' # b))"
      "\<not> asciiSpace (hd (t @ CHR '' '' # b))"
      using t by (auto simp: neq_Nil_conv)
    with assms(6) False
    have "TrimSpace ((t @ CHR '' '' # b) @ CHR '' '' # c) = (t @ CHR '' '' # b) @ CHR '' '' # c"
      by (rule trimmed_after_blank)
    with False show ?thesis by (simp add: s_def)
  qed
  have nt: "set t \<inter> set [CHR '' '', CHR 0x09] = {}"
    using t(3) asciiSpace_blank by auto
  have ia: "IndexAny (t @ CHR '' '' # b @ s) [CHR '' '', CHR 0x09] = Some (length t)"
    using nt by (intro IndexAny_first) auto
  have first: "(t @ CHR '' '' # b @ s) ! 0 \<noteq> CHR ''#''"
    using t(1,2) by (cases t) auto
  have field: "parseAuthorizedKey lib (CHR '' '' # b @ s) = Some (k, c)"
    unfolding s_def using assms(2-6) by (rule parseAuthorizedKey_field)
  show ?thesis
    using first field by (simp add: parseLine_def nocr trim ia Let_def)
qed

lemma parseAuthKey_encoded:
  assumes "keyType lib (Key r) \<in> set supportedAlgos"
    and "keyReadsBack lib (Key r)" and "plainComment (Comment r)"
  shows "MarshalWithComment lib r =
           keyType lib (Key r) @ CHR '' '' # b64encode lib (keyMarshal lib (Key r))
             @ CHR '' '' # Comment r @ [CHR 0x0A]"
    and "CHR 0x0A \<notin> set (keyType lib (Key r) @ CHR '' '' # b64encode lib (keyMarshal lib (Key r))
             @ CHR '' '' # Comment r)"
    and "parseAuthKey lib (MarshalWithComment lib r) = Inr r"
proof -
  define t where "t = keyType lib (Key r)"
  define b where "b = b64encode lib (keyMarshal lib (Key r))"
  define c where "c = Comment r"
  have b: "b \<noteq> []" "\<forall>x \<in> set b. \<not> digit7 x \<and> \<not> asciiSpace x"
    "b64decode lib b = Some (keyMarshal lib (Key r))"
    "ParsePublicKey lib (keyMarshal lib (Key r)) = Some (Key r)"
    using assms(2) by (auto simp: keyReadsBack_def b_def)
  have c: "CHR 0x0A \<notin> set c" "CHR 0x0D \<notin> set c" "TrimSpace c = c"
    using assms(3) by (auto simp: plainComment_def c_def)
  have t: "t \<in> set supportedAlgos" using assms(1) by (simp add: t_def)
  have tc: "\<forall>x \<in> set t. \<not> asciiSpace x" using supportedAlgos_chars[OF t] by simp
  show enc: "MarshalWithComment lib r =
           keyType lib (Key r) @ CHR '' '' # b64encode lib (keyMarshal lib (Key r))
             @ CHR '' '' # Comment r @ [CHR 0x0A]"
    using encoded_key_text(2)[OF t b(1,2)]
    by (simp add: MarshalWithComment_def MarshalAuthorizedKey_def t_def b_def)
  show nonl: "CHR 0x0A \<notin> set (keyType lib (Key r) @ CHR '' '' # b64encode lib (keyMarshal lib (Key r))
             @ CHR '' '' # Comment r)"
    using tc b(2) c(1) asciiSpace_blank by (auto simp: t_def[symmetric] b_def[symmetric] c_def[symmetric])
  have pl: "parseLine lib (t @ CHR '' '' # b @ CHR '' '' # c) = Some (Key r, c)"
    using t b c(3,2) by (rule parseLine_encoded)
  have ib: "IndexByte ((t @ CHR '' '' # b @ CHR '' '' # c) @ CHR 0x0A # []) (CHR 0x0A)
      = Some (length (t @ CHR '' '' # b @ CHR '' '' # c))"
    using nonl by (intro IndexByte_first) (simp add: t_def b_def c_def)
  have "ParseAuthorizedKey lib ((t @ CHR '' '' # b @ CHR '' '' # c) @ [CHR 0x0A]) = Some (Key r, c)"
    by (subst ParseAuthorizedKey.simps) (simp add: ib pl del: append_assoc)
  moreover have "HasPrefix (t @ x) t" for x
    by (simp add: HasPrefix_def)
  then have "hasSupportedPrefix (t @ x)" for x
    using t by (auto simp: hasSupportedPrefix_def)
  then have "hasSupportedPrefix ((t @ CHR '' '' # b @ CHR '' '' # c) @ [CHR 0x0A])"
    by simp
  ultimately have "parseAuthKey lib ((t @ CHR '' '' # b @ CHR '' '' # c) @ [CHR 0x0A]) = Inr r"
    by (auto simp: parseAuthKey_def hasSupportedPrefix_def supportedAlgos_def c_def simp del: append_assoc)
  then show "parseAuthKey lib (MarshalWithComment lib r) = Inr r"
    by (simp add: enc t_def b_def c_def)
qed

lemma readLoop_encoded:
  "\<forall>r \<in> set rs. keyType lib (Key r) \<in> set supportedAlgos \<and> keyReadsBack lib (Key r) \<and>
      plainComment (Comment r) \<Longrightarrow>
   readLoop lib (concat (map (MarshalWithComment lib) rs), EOF) acc = (acc @ rs, None)"
proof (induction rs arbitrary: acc)
  case Nil
  then show ?case by (simp add: readLoop_end)
next
  case (Cons r rs)
  define l where "l = keyType lib (Key r) @ CHR '' '' # b64encode lib (keyMarshal lib (Key r))
             @ CHR '' '' # Comment r"
  define rest where "rest = concat (map (MarshalWithComment lib) rs)"
  from Cons.prems have r: "keyType lib (Key r) \<in> set supportedAlgos" "keyReadsBack lib (Key r)"
    "plainComment (Comment r)"
    by simp_all
  have enc: "MarshalWithComment lib r = l @ [CHR 0x0A]"
    using parseAuthKey_encoded(1)[OF r] by (simp add: l_def)
  have nonl: "CHR 0x0A \<notin> set l"
    using parseAuthKey_encoded(2)[OF r] by (simp add: l_def)
  have ib: "IndexByte (l @ CHR 0x0A # rest) (CHR 0x0A) = Some (length l)"
    using nonl by (rule IndexByte_first)
  have "readLoop lib (l @ CHR 0x0A # rest, EOF) acc = readLoop lib (rest, EOF) (acc @ [r])"
    using parseAuthKey_encoded(3)[OF r] by (simp add: readLoop_line[OF ib] enc)
  also have "\<dots> = ((acc @ [r]) @ rs, None)"
    unfolding rest_def using Cons.prems by (intro Cons.IH) simp
  finally show ?case by (simp add: enc rest_def)
qed

section \<open>The claims\<close>

subsection \<open>C1: duplicate keys\<close>

text \<open>
  Claim C1. The duplicate check compares the wire encoding (\<^verbatim>\<open>Marshal\<close>) of the new
  key with that of every record read from the container, whatever their comments. When
  one is equal, \<open>realmain\<close> returns the duplicate-key error and writes nothing: the
  container is unchanged, the only command run is the pull, and the temporary file is
  removed or, when its removal fails, still holds what was pulled.
\<close>

theorem duplicate_key_rejected:
  assumes "ReadFile w (keyPath ev kf) = Inr keybuf"
    and "parseAuthKey lib keybuf = Inr key"
    and "tempFileErr ev = None"
    and "pullErr ev = None"
    and "remote w (authKeysPath c) = Some content"
    and "readAuthorizedKeys lib (content, case tmpReadErr ev of None \<Rightarrow> EOF | Some m \<Rightarrow> ErrOS m)
           = (keys, None)"
    and "\<exists>k \<in> set keys. keyMarshal lib (Key k) = keyMarshal lib (Key key)"
  shows "fst (realmain lib ev c kf w) = Some ErrDuplicateKey \<and>
         remote (snd (realmain lib ev c kf w)) = remote w \<and>
         calls (snd (realmain lib ev c kf w)) =
           calls w @ [Exec [''lxc'', ''file'', ''pull'', authKeysPath c, tmpName ev],
                      Close (tmpName ev), Remove (tmpName ev)] \<and>
         files (snd (realmain lib ev c kf w)) (tmpName ev) =
           (if removeErr ev = None then None else Some content)"
proof -
  define w1 where "w1 = w\<lparr>files := (files w)(tmpName ev \<mapsto> [])\<rparr>"
  define w2 where "w2 = w1\<lparr>calls := calls w1 @ [Exec [''lxc'', ''file'', ''pull'', authKeysPath c, tmpName ev]],
                             files := (files w1)(tmpName ev \<mapsto> content)\<rparr>"
  have pull: "lxcPull ev (tmpName ev) (authKeysPath c) w1 = (None, w2)"
    using assms(4,5) by (simp add: lxcPull_ok w1_def w2_def)
  have rd: "readAuthorizedKeys lib (fileReader ev w2 (tmpName ev)) = (keys, None)"
    using assms(6) by (simp add: fileReader_def w2_def)
  have dup: "isDuplicate lib (keyMarshal lib (Key key)) keys"
    using assms(7) by (metis isDuplicate_iff)
  have body: "realmainBody lib ev c key (tmpName ev) w1 = (Some ErrDuplicateKey, w2)"
    by (simp add: realmainBody_def pull rd dup)
  have res: "realmain lib ev c kf w = (Some ErrDuplicateKey, rmFile ev (tmpName ev) w2)"
    using realmain_unfold[OF assms(1,2,3), of c] body by (simp add: w1_def)
  show ?thesis
    by (simp add: res rmFile_def perr_def Let_def w2_def w1_def split: option.splits)
qed

text \<open>
  The container holds the user's key under the comment \<^verbatim>\<open>work laptop\<close>; the key file
  holds it under the comment \<^verbatim>\<open>carol\<close>.
\<close>

theorem duplicate_key_rejected_witness:
  "readAuthorizedKeys testLib (lineA @ lineC2, EOF) =
     ([keyA, \<lparr>Key = Key keyC, Comment = ''work laptop''\<rparr>], None) \<and>
   fst (realmain testLib env0 ''c1'' [] world1) = Some ErrDuplicateKey \<and>
   remote (snd (realmain testLib env0 ''c1'' [] world1)) = remote world1 \<and>
   calls (snd (realmain testLib env0 ''c1'' [] world1)) =
     [Exec [''lxc'', ''file'', ''pull'', ''c1/root/.ssh/authorized_keys'', ''/tmp/addkey1''],
      Close ''/tmp/addkey1'', Remove ''/tmp/addkey1''] \<and>
   files (snd (realmain testLib env0 ''c1'' [] world1)) ''/tmp/addkey1'' = None"
proof -
  have 1: "ReadFile world1 (keyPath env0 []) = Inr lineC" by code_simp
  have 2: "parseAuthKey testLib lineC = Inr keyC" by code_simp
  have 3: "tempFileErr env0 = None" "pullErr env0 = None" "removeErr env0 = None"
    by (simp_all add: env0_def)
  have 4: "remote world1 (authKeysPath ''c1'') = Some (lineA @ lineC2)" by code_simp
  have 5: "readAuthorizedKeys testLib
      (lineA @ lineC2, case tmpReadErr env0 of None \<Rightarrow> EOF | Some m \<Rightarrow> ErrOS m)
      = ([keyA, \<lparr>Key = Key keyC, Comment = ''work laptop''\<rparr>], None)"
    by code_simp
  have 6: "\<exists>k \<in> set [keyA, \<lparr>Key = Key keyC, Comment = ''work laptop''\<rparr>].
      keyMarshal testLib (Key k) = keyMarshal testLib (Key keyC)"
    by simp
  have 7: "tmpReadErr env0 = None" "tmpName env0 = ''/tmp/addkey1''" "calls world1 = []"
    "authKeysPath ''c1'' = ''c1/root/.ssh/authorized_keys''"
    by (simp_all add: env0_def world1_def authKeysPath_def)
  show ?thesis
    using duplicate_key_rejected[OF 1 2 3(1) 3(2) 4 5 6] 5 3 7 by simp
qed

subsection \<open>C2: a last line without newline\<close>

text \<open>
  Claim C2 says that \<open>readAuthorizedKeys\<close> fails when the last line has no newline.
  The code does not: \<^verbatim>\<open>ReadBytes\<close> hands back the unfinished line together with
  \<open>EOF\<close>, and the loop stops on \<open>EOF\<close> without looking at it (lemma
  \<open>readAuthorizedKeys_unterminated_tail\<close>). Here the last line is a key that parses on
  its own; it is dropped without error, and the run then replaces the remote file by one
  that no longer holds it.
\<close>

theorem unterminated_last_line_dropped:
  "parseAuthKey testLib ''ssh-dss AAAAB3NzaC1kc3NrYg== bob'' = Inr keyB \<and>
   readAuthorizedKeys testLib (lineA @ ''ssh-dss AAAAB3NzaC1kc3NrYg== bob'', EOF)
     = ([keyA], None) \<and>
   fst (realmain testLib env0 ''c1'' [] world3) = None \<and>
   remote (snd (realmain testLib env0 ''c1'' [] world3)) (authKeysPath ''c1'')
     = Some (lineA @ lineC)"
  by code_simp

subsection \<open>C3: encoding and decoding\<close>

text \<open>
  Claim C3, as the code has it. For records whose algorithm is supported, whose key the
  library reads back, and whose comment has no newline, no carriage return and no white
  space at either end (white space as \<^verbatim>\<open>bytes.TrimSpace\<close> knows it, of one byte or
  of several), encoding each record with \<open>MarshalWithComment\<close> and decoding the
  concatenation with \<open>readAuthorizedKeys\<close> gives the same records in the same order.
\<close>

theorem encode_decode_roundtrip:
  assumes "\<forall>r \<in> set rs. keyType lib (Key r) \<in> set supportedAlgos \<and> keyReadsBack lib (Key r) \<and>
      plainComment (Comment r)"
  shows "readAuthorizedKeys lib (concat (map (MarshalWithComment lib) rs), EOF) = (rs, None)"
  using readLoop_encoded[OF assms, of "[]"] by (simp add: readAuthorizedKeys_def)

text \<open>The records A, B and C meet the conditions; their encoding reads back as A, B, C.\<close>

theorem encode_decode_roundtrip_witness:
  "keyReadsBack testLib (Key keyA) \<and> plainComment (Comment keyB) \<and>
   concat (map (MarshalWithComment testLib) [keyA, keyB, keyC]) = lineA @ lineB @ lineC \<and>
   readAuthorizedKeys testLib (lineA @ lineB @ lineC, EOF) = ([keyA, keyB, keyC], None)"
proof -
  have h: "\<forall>r \<in> set [keyA, keyB, keyC]. keyType testLib (Key r) \<in> set supportedAlgos \<and>
      keyReadsBack testLib (Key r) \<and> plainComment (Comment r)"
    by code_simp
  have e: "concat (map (MarshalWithComment testLib) [keyA, keyB, keyC]) = lineA @ lineB @ lineC"
    by code_simp
  have k: "keyReadsBack testLib (Key keyA)" "plainComment (Comment keyB)"
    by code_simp+
  show ?thesis
    using encode_decode_roundtrip[OF h] k e by simp
qed

text \<open>
  Claim C3 as stated fails: a comment without newline may begin or end with white
  space, which \<^verbatim>\<open>ssh.ParseAuthorizedKey\<close> trims. The record \<open>keyA2\<close> is well formed
  in the claim's sense, and its encoding decodes to \<open>keyA\<close>.
\<close>

theorem comment_not_preserved:
  "wellFormed testLib keyA2 \<and>
   MarshalWithComment testLib keyA2 = ''ssh-rsa AAAAB3NzaC1yc2FrYQ==  alice'' @ [CHR 0x0A] \<and>
   readAuthorizedKeys testLib (concat (map (MarshalWithComment testLib) [keyA2]), EOF)
     = ([keyA], None) \<and>
   readAuthorizedKeys testLib (concat (map (MarshalWithComment testLib) [keyA2]), EOF)
     \<noteq> ([keyA2], None)"
  by code_simp

text \<open>
  The same holds of white space of several bytes: a comment that ends in a no-break
  space is not one the conditions above admit, and it comes back without it.
\<close>

lemma trailing_nbsp_trimmed:
  "wellFormed testLib keyA3 \<and> \<not> plainComment (Comment keyA3) \<and>
   readAuthorizedKeys testLib (MarshalWithComment testLib keyA3, EOF) = ([keyA], None)"
  by code_simp

subsection \<open>C4: order of the pushed records\<close>

text \<open>
  Claim C4. In a run that succeeds, with the records read from the container \<open>keys\<close>
  and the new key \<open>key\<close>, the content pushed is the encoding of \<open>keys\<close> in their
  order followed by the encoding of \<open>key\<close>.
\<close>

theorem pushed_content_keeps_order:
  assumes "ReadFile w (keyPath ev kf) = Inr keybuf"
    and "parseAuthKey lib keybuf = Inr key"
    and "remote w (authKeysPath c) = Some content"
    and "readAuthorizedKeys lib (content, case tmpReadErr ev of None \<Rightarrow> EOF | Some m \<Rightarrow> ErrOS m)
           = (keys, None)"
    and "fst (realmain lib ev c kf w) = None"
  shows "remote (snd (realmain lib ev c kf w)) (authKeysPath c) =
           Some (concat (map (MarshalWithComment lib) keys) @ MarshalWithComment lib key)"
proof -
  have tf: "tempFileErr ev = None"
    using assms(1,2,5) by (auto simp: realmain_def TempFile_def split: option.splits)
  define w1 where "w1 = w\<lparr>files := (files w)(tmpName ev \<mapsto> [])\<rparr>"
  have res: "realmain lib ev c kf w =
      (fst (realmainBody lib ev c key (tmpName ev) w1),
       rmFile ev (tmpName ev) (snd (realmainBody lib ev c key (tmpName ev) w1)))"
    using realmain_unfold[OF assms(1,2) tf, of c] by (simp add: w1_def)
  then have ok: "fst (realmainBody lib ev c key (tmpName ev) w1) = None"
    using assms(5) by simp
  have pe: "pullErr ev = None"
    using ok by (auto simp: realmainBody_def lxcPull_def Let_def split: option.splits)
  define w2 where "w2 = w1\<lparr>calls := calls w1 @ [Exec [''lxc'', ''file'', ''pull'', authKeysPath c, tmpName ev]],
                             files := (files w1)(tmpName ev \<mapsto> content)\<rparr>"
  have pull: "lxcPull ev (tmpName ev) (authKeysPath c) w1 = (None, w2)"
    using pe assms(3) by (simp add: lxcPull_ok w1_def w2_def)
  have rd: "readAuthorizedKeys lib (fileReader ev w2 (tmpName ev)) = (keys, None)"
    using assms(4) by (simp add: fileReader_def w2_def)
  obtain err w3 where wr:
    "writeAuthorizedKeys lib ev (tmpName ev) (keys @ [key]) (authKeysPath c) w2 = (err, w3)"
    by (cases "writeAuthorizedKeys lib ev (tmpName ev) (keys @ [key]) (authKeysPath c) w2") auto
  have body: "realmainBody lib ev c key (tmpName ev) w1 = (None, w3) \<and> err = None"
    using ok wr by (auto simp: realmainBody_def pull rd split: if_splits option.splits)
  then have "remote w3 (authKeysPath c) =
      Some (concat (map (MarshalWithComment lib) (keys @ [key])))"
    using wr writeAuthorizedKeys_ok_remote by blast
  then show ?thesis
    using res body by (simp add: rmFile_remote)
qed

text \<open>For the remote records A, B and the new key C the pushed content is A, B, C.\<close>

theorem pushed_content_keeps_order_witness:
  "readAuthorizedKeys testLib (lineA @ lineB, EOF) = ([keyA, keyB], None) \<and>
   parseAuthKey testLib lineC = Inr keyC \<and>
   fst (realmain testLib env0 ''c1'' [] world0) = None \<and>
   remote (snd (realmain testLib env0 ''c1'' [] world0)) (authKeysPath ''c1'') =
     Some (MarshalWithComment testLib keyA @ MarshalWithComment testLib keyB
           @ MarshalWithComment testLib keyC)"
proof -
  have 1: "ReadFile world0 (keyPath env0 []) = Inr lineC" by code_simp
  have 2: "parseAuthKey testLib lineC = Inr keyC" by code_simp
  have 3: "remote world0 (authKeysPath ''c1'') = Some (lineA @ lineB)" by code_simp
  have 4: "readAuthorizedKeys testLib
      (lineA @ lineB, case tmpReadErr env0 of None \<Rightarrow> EOF | Some m \<Rightarrow> ErrOS m)
      = ([keyA, keyB], None)"
    by code_simp
  have 5: "fst (realmain testLib env0 ''c1'' [] world0) = None" by code_simp
  have 6: "tmpReadErr env0 = None" by (simp add: env0_def)
  show ?thesis
    using pushed_content_keeps_order[OF 1 2 3 4 5] 2 4 5 6 by simp
qed

subsection \<open>C5: unsupported algorithms\<close>

text \<open>
  Claim C5, as the code has it. A line that does not begin with the bytes of one of the
  five identifiers fails to parse with \<open>errUnsupportedKeyAlgo\<close>; whenever
  \<open>readAuthorizedKeys\<close> returns an error it returns no records; and a stream in which
  such a line, ended by a newline, follows lines that all parse fails with
  \<open>errUnsupportedKeyAlgo\<close>.
\<close>

theorem unsupported_prefix_rejected:
  "(\<not> hasSupportedPrefix line \<longrightarrow> parseAuthKey lib line = Inl errUnsupportedKeyAlgo) \<and>
   (snd (readAuthorizedKeys lib r) \<noteq> None \<longrightarrow> fst (readAuthorizedKeys lib r) = []) \<and>
   ((pre = [] \<or> last pre = CHR 0x0A) \<and> readAuthorizedKeys lib (pre, EOF) = (keys, None) \<and>
    CHR 0x0A \<notin> set l \<and> \<not> hasSupportedPrefix (l @ [CHR 0x0A]) \<longrightarrow>
      readAuthorizedKeys lib (pre @ l @ [CHR 0x0A] @ rest, fin) = ([], Some errUnsupportedKeyAlgo))"
proof (intro conjI impI)
  assume "\<not> hasSupportedPrefix line"
  then show "parseAuthKey lib line = Inl errUnsupportedKeyAlgo"
    by (rule parseAuthKey_unsupported)
next
  assume "snd (readAuthorizedKeys lib r) \<noteq> None"
  then show "fst (readAuthorizedKeys lib r) = []"
    using readLoop_error[of lib "fst r" "snd r" "[]"] by (auto simp: readAuthorizedKeys_def)
next
  assume a: "(pre = [] \<or> last pre = CHR 0x0A) \<and> readAuthorizedKeys lib (pre, EOF) = (keys, None) \<and>
    CHR 0x0A \<notin> set l \<and> \<not> hasSupportedPrefix (l @ [CHR 0x0A])"
  then have "readLoop lib (pre @ l @ [CHR 0x0A] @ rest, fin) [] =
      readLoop lib (l @ [CHR 0x0A] @ rest, fin) keys"
    using readLoop_append[of pre lib "[]" keys] by (simp add: readAuthorizedKeys_def)
  moreover have "IndexByte (l @ [CHR 0x0A] @ rest) (CHR 0x0A) = Some (length l)"
    using a IndexByte_first[of "CHR 0x0A" l rest] by simp
  ultimately show "readAuthorizedKeys lib (pre @ l @ [CHR 0x0A] @ rest, fin) =
      ([], Some errUnsupportedKeyAlgo)"
    using a by (simp add: readAuthorizedKeys_def readLoop_line parseAuthKey_unsupported)
qed

theorem unsupported_prefix_rejected_witness:
  "\<not> hasSupportedPrefix lineE \<and> parseAuthKey testLib lineE = Inl errUnsupportedKeyAlgo \<and>
   snd (readAuthorizedKeys testLib (lineA @ lineE @ lineB, EOF)) \<noteq> None \<and>
   fst (readAuthorizedKeys testLib (lineA @ lineE @ lineB, EOF)) = [] \<and>
   readAuthorizedKeys testLib (lineA, EOF) = ([keyA], None) \<and>
   readAuthorizedKeys testLib
     (lineA @ ''ssh-ed25519 AAAAC3NzaC1lZDI1NTE5a2U= eve'' @ [CHR 0x0A] @ lineB, EOF)
     = ([], Some errUnsupportedKeyAlgo)"
proof -
  have 1: "\<not> hasSupportedPrefix lineE" by code_simp
  have 2: "snd (readAuthorizedKeys testLib (lineA @ lineE @ lineB, EOF)) \<noteq> None" by code_simp
  have 3: "(lineA = [] \<or> last lineA = CHR 0x0A) \<and>
    readAuthorizedKeys testLib (lineA, EOF) = ([keyA], None) \<and>
    CHR 0x0A \<notin> set ''ssh-ed25519 AAAAC3NzaC1lZDI1NTE5a2U= eve'' \<and>
    \<not> hasSupportedPrefix (''ssh-ed25519 AAAAC3NzaC1lZDI1NTE5a2U= eve'' @ [CHR 0x0A])"
    by code_simp
  show ?thesis
    using unsupported_prefix_rejected[of lineE testLib "(lineA @ lineE @ lineB, EOF)" lineA "[keyA]"
        "''ssh-ed25519 AAAAC3NzaC1lZDI1NTE5a2U= eve''" lineB EOF] 1 2 3
    by simp
qed

text \<open>
  Claim C5 as stated fails: the test is on the first bytes of the line, not on its
  leading token. The leading token of this line is none of the five identifiers, and the
  line is read as a key.
\<close>

theorem prefix_is_not_token:
  "leadingToken certLine = ''ssh-rsa-cert-v01@openssh.com'' \<and>
   leadingToken certLine \<notin> set supportedAlgos \<and>
   parseAuthKey testLib certLine = Inr keyA \<and>
   readAuthorizedKeys testLib (certLine, EOF) = ([keyA], None)"
  by code_simp

subsection \<open>C6: all or nothing\<close>

text \<open>
  Claim C6. Whatever step fails, the remote authorized\_keys file is replaced in full or
  left untouched: when \<open>realmain\<close> returns an error the files of the container are what
  they were, and when it returns none the one file at the authorized\_keys path holds the
  encoding of a whole record sequence ending in the new key. (A push that fails changes
  nothing: that is how \<open>lxcPush\<close> models the transport.)
\<close>

theorem realmain_all_or_nothing:
  "(fst (realmain lib ev c kf w) \<noteq> None \<longrightarrow> remote (snd (realmain lib ev c kf w)) = remote w) \<and>
   (fst (realmain lib ev c kf w) = None \<longrightarrow>
      (\<exists>keys key. remote (snd (realmain lib ev c kf w)) =
         (remote w)(authKeysPath c \<mapsto> concat (map (MarshalWithComment lib) (keys @ [key])))))"
proof (cases "ReadFile w (keyPath ev kf)")
  case (Inl e)
  then show ?thesis by (simp add: realmain_def)
next
  case (Inr keybuf)
  show ?thesis
  proof (cases "parseAuthKey lib keybuf")
    case (Inl e)
    with Inr show ?thesis by (simp add: realmain_def)
  next
    case key: (Inr key)
    show ?thesis
    proof (cases "tempFileErr ev")
      case (Some m)
      with Inr key show ?thesis by (simp add: realmain_def TempFile_def)
    next
      case None
      define w1 where "w1 = w\<lparr>files := (files w)(tmpName ev \<mapsto> [])\<rparr>"
      obtain err w2 where body: "realmainBody lib ev c key (tmpName ev) w1 = (err, w2)"
        by (cases "realmainBody lib ev c key (tmpName ev) w1") auto
      have res: "realmain lib ev c kf w = (err, rmFile ev (tmpName ev) w2)"
        using Inr key None body by (simp add: realmain_def TempFile_def w1_def)
      have "remote w1 = remote w" by (simp add: w1_def)
      with realmainBody_remote[OF body] res show ?thesis
        by (cases err) (auto simp: rmFile_remote)
    qed
  qed
qed

text \<open>
  A run whose push fails leaves the container as it was; the run in which nothing fails
  replaces the file.
\<close>

theorem realmain_all_or_nothing_witness:
  "fst (realmain testLib (env0\<lparr>pushErr := Some ''exit status 1''\<rparr>) ''c1'' [] world0) \<noteq> None \<and>
   remote (snd (realmain testLib (env0\<lparr>pushErr := Some ''exit status 1''\<rparr>) ''c1'' [] world0))
     = remote world0 \<and>
   fst (realmain testLib env0 ''c1'' [] world0) = None \<and>
   (\<exists>keys key. remote (snd (realmain testLib env0 ''c1'' [] world0)) =
      (remote world0)(authKeysPath ''c1'' \<mapsto>
         concat (map (MarshalWithComment testLib) (keys @ [key]))))"
proof -
  have f: "fst (realmain testLib (env0\<lparr>pushErr := Some ''exit status 1''\<rparr>) ''c1'' [] world0)
      = Some (ErrPushing (ErrOS ''exit status 1''))"
    by code_simp
  have s: "fst (realmain testLib env0 ''c1'' [] world0) = None"
    by code_simp
  show ?thesis
    using realmain_all_or_nothing
        [of testLib "env0\<lparr>pushErr := Some ''exit status 1''\<rparr>" "''c1''" "[]" world0]
      realmain_all_or_nothing[of testLib env0 "''c1''" "[]" world0] f s
    by simp
qed

subsection \<open>C7: the temporary file\<close>

text \<open>
  Claim C7, as the code has it. Once the temporary file is made, every return of
  \<open>realmain\<close> closes it and asks for its removal, as the last two calls of the run;
  when the removal does not fail the file is gone afterwards.
\<close>

theorem temp_file_released:
  assumes "ReadFile w (keyPath ev kf) = Inr keybuf"
    and "parseAuthKey lib keybuf = Inr key"
    and "tempFileErr ev = None"
  shows "(\<exists>cs. calls (snd (realmain lib ev c kf w)) =
            calls w @ cs @ [Close (tmpName ev), Remove (tmpName ev)]) \<and>
         (removeErr ev = None \<longrightarrow> files (snd (realmain lib ev c kf w)) (tmpName ev) = None)"
proof -
  define w1 where "w1 = w\<lparr>files := (files w)(tmpName ev \<mapsto> [])\<rparr>"
  define w2 where "w2 = snd (realmainBody lib ev c key (tmpName ev) w1)"
  have res: "snd (realmain lib ev c kf w) = rmFile ev (tmpName ev) w2"
    using realmain_unfold[OF assms, of c] by (simp add: w1_def w2_def)
  obtain cs where "calls w2 = calls w @ cs"
    using realmainBody_calls[of lib ev c key "tmpName ev" w1] by (auto simp: w1_def w2_def)
  then have "calls (rmFile ev (tmpName ev) w2) =
      calls w @ cs @ [Close (tmpName ev), Remove (tmpName ev)]"
    by (simp add: rmFile_def perr_def Let_def split: option.splits)
  moreover have "removeErr ev = None \<longrightarrow> files (rmFile ev (tmpName ev) w2) (tmpName ev) = None"
    by (simp add: rmFile_def perr_def Let_def split: option.splits)
  ultimately show ?thesis unfolding res by blast
qed

theorem temp_file_released_witness:
  "(\<exists>cs. calls (snd (realmain testLib env0 ''c1'' [] world0)) =
      calls world0 @ cs @ [Close ''/tmp/addkey1'', Remove ''/tmp/addkey1'']) \<and>
   removeErr env0 = None \<and>
   files (snd (realmain testLib env0 ''c1'' [] world0)) ''/tmp/addkey1'' = None"
proof -
  have 1: "ReadFile world0 (keyPath env0 []) = Inr lineC" by code_simp
  have 2: "parseAuthKey testLib lineC = Inr keyC" by code_simp
  have 3: "tempFileErr env0 = None" "removeErr env0 = None" "tmpName env0 = ''/tmp/addkey1''"
    by (simp_all add: env0_def)
  show ?thesis
    using temp_file_released[OF 1 2 3(1), of "''c1''"] 3 by simp
qed

text \<open>
  Claim C7 as stated fails: \<open>rmFile\<close> only reports a removal that fails, and the file
  then outlives the run.
\<close>

theorem temp_file_left_behind:
  "fst (realmain testLib envRemoveFails ''c1'' [] world0) = None \<and>
   files (snd (realmain testLib envRemoveFails ''c1'' [] world0)) (tmpName envRemoveFails)
     = Some (lineA @ lineB @ lineC)"
  by code_simp

subsection \<open>C8: exit codes and output\<close>

text \<open>
  Claim C8, as the code has it. When the container argument is missing (or empty)
  \<open>main\<close> prints the usage message to standard error and exits with code 1. When
  \<open>realmain\<close> returns an error, \<open>main\<close> prints \<^verbatim>\<open>Error: \<close>, the message and a
  newline to standard error and exits with code 1. When \<open>realmain\<close> returns no error
  the exit code is 0, and nothing has been printed provided closing and removing the
  temporary file did not fail.
\<close>

theorem main_exit_codes:
  "(Arg args 0 = [] \<longrightarrow>
      main lib ev kf args w =
        (1, w\<lparr>stderr := stderr w @ ''usage: '' @ progName ev @ '' [OPTIONS] <container>''
                             @ [CHR 0x0A] @ flagDefaults ev\<rparr>)) \<and>
   (Arg args 0 \<noteq> [] \<and> realmain lib ev (Arg args 0) kf w = (Some e, w') \<longrightarrow>
      main lib ev kf args w =
        (1, w'\<lparr>stderr := stderr w' @ ''Error: '' @ errMsg e @ [CHR 0x0A]\<rparr>)) \<and>
   (Arg args 0 \<noteq> [] \<and> realmain lib ev (Arg args 0) kf w = (None, w') \<longrightarrow>
      main lib ev kf args w = (0, w') \<and>
      (closeErr ev = None \<and> removeErr ev = None \<longrightarrow> stderr w' = stderr w))"
proof (intro conjI impI)
  assume "Arg args 0 = []"
  then show "main lib ev kf args w =
        (1, w\<lparr>stderr := stderr w @ ''usage: '' @ progName ev @ '' [OPTIONS] <container>''
                             @ [CHR 0x0A] @ flagDefaults ev\<rparr>)"
    by (simp add: main_def printUsage_def)
next
  assume "Arg args 0 \<noteq> [] \<and> realmain lib ev (Arg args 0) kf w = (Some e, w')"
  then show "main lib ev kf args w =
        (1, w'\<lparr>stderr := stderr w' @ ''Error: '' @ errMsg e @ [CHR 0x0A]\<rparr>)"
    by (simp add: main_def perr_def)
next
  assume "Arg args 0 \<noteq> [] \<and> realmain lib ev (Arg args 0) kf w = (None, w')"
  then show "main lib ev kf args w = (0, w')"
    by (simp add: main_def)
next
  assume "Arg args 0 \<noteq> [] \<and> realmain lib ev (Arg args 0) kf w = (None, w')"
    "closeErr ev = None \<and> removeErr ev = None"
  then show "stderr w' = stderr w"
    using realmain_stderr[of ev lib "Arg args 0" kf w] by simp
qed

theorem main_exit_codes_witness:
  "fst (main testLib env0 [] [] world0) = 1 \<and>
   stderr (snd (main testLib env0 [] [] world0)) = ''usage: addkey [OPTIONS] <container>'' @ [CHR 0x0A] \<and>
   fst (main testLib env0 [] [''c1''] world1) = 1 \<and>
   stderr (snd (main testLib env0 [] [''c1''] world1)) =
     ''Error: key already in authorized_keys'' @ [CHR 0x0A] \<and>
   fst (main testLib env0 [] [''c1''] world0) = 0 \<and>
   stderr (snd (main testLib env0 [] [''c1''] world0)) = stderr world0"
proof -
  obtain w1 where r1: "realmain testLib env0 ''c1'' [] world1 = (fst (realmain testLib env0 ''c1'' [] world1), w1)"
    by (cases "realmain testLib env0 ''c1'' [] world1") auto
  have e1: "fst (realmain testLib env0 ''c1'' [] world1) = Some ErrDuplicateKey" by code_simp
  have s1: "stderr (snd (realmain testLib env0 ''c1'' [] world1)) = []" by code_simp
  obtain w0 where r0: "realmain testLib env0 ''c1'' [] world0 = (fst (realmain testLib env0 ''c1'' [] world0), w0)"
    by (cases "realmain testLib env0 ''c1'' [] world0") auto
  have e0: "fst (realmain testLib env0 ''c1'' [] world0) = None" by code_simp
  have ev: "closeErr env0 = None" "removeErr env0 = None" "progName env0 = ''addkey''"
    "flagDefaults env0 = []" "stderr world0 = []"
    by (simp_all add: env0_def world0_def)
  have m: "errMsg ErrDuplicateKey = ''key already in authorized_keys''" by simp
  show ?thesis
    using main_exit_codes[of "[]" testLib env0 "[]" world0 ErrDuplicateKey w1]
      main_exit_codes[of "[''c1'']" testLib env0 "[]" world1 ErrDuplicateKey w1]
      main_exit_codes[of "[''c1'']" testLib env0 "[]" world0 ErrDuplicateKey w0]
      r1 e1 s1 r0 e0 ev m
    by (simp add: Arg_def)
qed

text \<open>
  Claim C8 as stated fails in its last part: a run that succeeds while the removal of
  the temporary file fails exits with code 0 and has printed to standard error.
\<close>

theorem main_success_with_output:
  "fst (main testLib envRemoveFails [] [''c1''] world0) = 0 \<and>
   stderr world0 = [] \<and>
   stderr (snd (main testLib envRemoveFails [] [''c1''] world0)) =
     ''Error: error deleting temp file: operation not permitted'' @ [CHR 0x0A, CHR 0x0A]"
  by code_simp

subsection \<open>C9: no keys to write\<close>

text \<open>
  Claim C9. \<open>writeAuthorizedKeys\<close> fails with the no-keys error exactly when it is given
  no record. The pipeline never gets that error: what \<open>realmain\<close> passes ends in the new
  key, and no error that \<open>realmain\<close> returns is the no-keys error, wrapped or not.
\<close>

theorem no_keys_error_unreachable:
  "(fst (writeAuthorizedKeys lib ev f keys dst w) = Some ErrNoKeys) = (keys = []) \<and>
   fst (writeAuthorizedKeys lib ev f (keys @ [key]) dst w) \<noteq> Some ErrNoKeys \<and>
   fst (realmainBody lib ev c key f w) \<noteq> Some (ErrPushing ErrNoKeys) \<and>
   fst (realmain lib ev c kf w) \<noteq> Some (ErrPushing ErrNoKeys) \<and>
   fst (realmain lib ev c kf w) \<noteq> Some ErrNoKeys"
proof -
  have wr: "(fst (writeAuthorizedKeys lib ev f ks dst w') = Some ErrNoKeys) = (ks = [])"
    for ks f dst w'
  proof (cases "ks = []")
    case True
    then show ?thesis by (simp add: writeAuthorizedKeys_def)
  next
    case False
    have "snd (writeLoop lib ev n ks' buf) \<noteq> Some ErrNoKeys" for n ks' buf
      by (induction ks' arbitrary: n buf) (auto split: option.splits)
    then have "\<And>b. writeLoop lib ev 0 ks [] \<noteq> (b, Some ErrNoKeys)"
      by (metis snd_conv)
    with False show ?thesis
      by (auto simp: writeAuthorizedKeys_def lxcPush_def Let_def
          split: option.splits prod.splits)
  qed
  have body: "fst (realmainBody lib ev c key' f' w') \<noteq> Some (ErrPushing ErrNoKeys) \<and>
              fst (realmainBody lib ev c key' f' w') \<noteq> Some ErrNoKeys" for key' f' w'
  proof -
    have rd: "snd (readAuthorizedKeys lib (fileReader ev w'' f')) \<noteq> Some ErrNoKeys \<and>
              snd (readAuthorizedKeys lib (fileReader ev w'' f')) \<noteq> Some (ErrPushing ErrNoKeys)" for w''
      using readLoop_error[of lib _ _ "[]"]
      by (auto simp: readAuthorizedKeys_def fileReader_def split: option.splits)
    have w2: "fst (writeAuthorizedKeys lib ev f' (ks @ [key']) dst' w'') \<noteq> Some ErrNoKeys" for ks dst' w''
      using wr[of f' "ks @ [key']" dst' w''] by simp
    show ?thesis
      using rd w2
      apply (auto simp: realmainBody_def lxcPull_def Let_def split: option.splits prod.splits if_splits)
      apply (metis fst_conv snd_conv)+
      done
  qed
  have pa: "parseAuthKey lib b \<noteq> Inl ErrNoKeys \<and> parseAuthKey lib b \<noteq> Inl (ErrPushing ErrNoKeys)" for b
    using parseAuthKey_error[of lib b] by auto
  have main: "fst (realmain lib ev c kf w) \<noteq> Some (ErrPushing ErrNoKeys) \<and>
        fst (realmain lib ev c kf w) \<noteq> Some ErrNoKeys"
    using body pa
    apply (auto simp: realmain_def TempFile_def ReadFile_def
        split: option.splits sum.splits prod.splits)
     apply (metis fst_conv)+
    done
  show ?thesis using wr[of f keys dst w] wr[of f "keys @ [key]" dst w] body main by simp
qed

subsection \<open>C10: an empty remote file\<close>

text \<open>
  Claim C10. Reading an empty file gives no record and no error. With an empty remote
  file, a key file that parses to \<open>key\<close> and no failing operation, \<open>realmain\<close> succeeds
  and the remote file becomes the encoding of \<open>key\<close>; that encoding is one line, ended
  by the only newline in it (the type name and the base64 text having none).
\<close>

theorem empty_remote_file:
  assumes "ReadFile w (keyPath ev kf) = Inr keybuf"
    and "parseAuthKey lib keybuf = Inr key"
    and "remote w (authKeysPath c) = Some []"
    and "tempFileErr ev = None" and "pullErr ev = None" and "tmpReadErr ev = None"
    and "truncateErr ev = None" and "writeErr ev 0 = None" and "flushErr ev = None"
    and "pushErr ev = None"
    and "CHR 0x0A \<notin> set (keyType lib (Key key))"
    and "CHR 0x0A \<notin> set (b64encode lib (keyMarshal lib (Key key)))"
  shows "readAuthorizedKeys lib ([], EOF) = ([], None) \<and>
         fst (realmain lib ev c kf w) = None \<and>
         remote (snd (realmain lib ev c kf w)) =
           (remote w)(authKeysPath c \<mapsto> MarshalWithComment lib key) \<and>
         (\<exists>l. MarshalWithComment lib key = l @ [CHR 0x0A] \<and> CHR 0x0A \<notin> set l)"
proof -
  have rd0: "readAuthorizedKeys lib ([], EOF) = ([], None)"
    by (simp add: readAuthorizedKeys_def readLoop_end)
  define w1 where "w1 = w\<lparr>files := (files w)(tmpName ev \<mapsto> [])\<rparr>"
  define w2 where "w2 = w1\<lparr>calls := calls w1 @ [Exec [''lxc'', ''file'', ''pull'', authKeysPath c, tmpName ev]],
                             files := (files w1)(tmpName ev \<mapsto> [])\<rparr>"
  have pull: "lxcPull ev (tmpName ev) (authKeysPath c) w1 = (None, w2)"
    using assms(3,5) by (simp add: lxcPull_ok w1_def w2_def)
  have rd: "readAuthorizedKeys lib (fileReader ev w2 (tmpName ev)) = ([], None)"
    using assms(6) rd0 by (simp add: fileReader_def w2_def)
  obtain err w3 where wr:
    "writeAuthorizedKeys lib ev (tmpName ev) [key] (authKeysPath c) w2 = (err, w3)"
    by (cases "writeAuthorizedKeys lib ev (tmpName ev) [key] (authKeysPath c) w2") auto
  have "err = None"
    using wr assms(7-10)
    by (auto simp: writeAuthorizedKeys_def lxcPush_def Let_def split: option.splits)
  with wr writeAuthorizedKeys_remote[OF wr]
  have w3: "remote w3 = (remote w2)(authKeysPath c \<mapsto> MarshalWithComment lib key)"
    by simp
  have body: "realmainBody lib ev c key (tmpName ev) w1 = (None, w3)"
    using wr \<open>err = None\<close> by (simp add: realmainBody_def pull rd)
  have res: "realmain lib ev c kf w = (None, rmFile ev (tmpName ev) w3)"
    using realmain_unfold[OF assms(1,2,4), of c] body by (simp add: w1_def)
  have "asciiSpace (CHR 0x0A)" by (simp add: asciiSpace_def)
  then have trim: "TrimSpace (MarshalAuthorizedKey lib (Key key)) =
      TrimSpace (keyType lib (Key key) @ '' '' @ b64encode lib (keyMarshal lib (Key key)))"
    using TrimSpace_snoc_space[of "CHR 0x0A"
        "keyType lib (Key key) @ '' '' @ b64encode lib (keyMarshal lib (Key key))"]
    by (simp add: MarshalAuthorizedKey_def)
  have "CHR 0x0A \<notin> set (TrimSpace (MarshalAuthorizedKey lib (Key key)))"
    using set_TrimSpace[of "keyType lib (Key key) @ '' '' @ b64encode lib (keyMarshal lib (Key key))"]
      assms(11,12) unfolding trim by auto
  moreover have "CHR 0x0A \<notin> set (Comment key)"
    using assms(2) by (rule parseAuthKey_comment)
  ultimately have one:
    "\<exists>l. MarshalWithComment lib key = l @ [CHR 0x0A] \<and> CHR 0x0A \<notin> set l"
    by (intro exI[of _ "TrimSpace (MarshalAuthorizedKey lib (Key key)) @ [CHR '' ''] @ Comment key"])
      (simp add: MarshalWithComment_def)
  show ?thesis
    using rd0 res w3 one by (simp add: rmFile_remote w2_def w1_def)
qed

theorem empty_remote_file_witness:
  "readAuthorizedKeys testLib ([], EOF) = ([], None) \<and>
   fst (realmain testLib env0 ''c1'' [] world2) = None \<and>
   remote (snd (realmain testLib env0 ''c1'' [] world2)) =
     (remote world2)(authKeysPath ''c1'' \<mapsto> lineC) \<and>
   (\<exists>l. lineC = l @ [CHR 0x0A] \<and> CHR 0x0A \<notin> set l)"
proof -
  have 1: "ReadFile world2 (keyPath env0 []) = Inr lineC" by code_simp
  have 2: "parseAuthKey testLib lineC = Inr keyC" by code_simp
  have 3: "remote world2 (authKeysPath ''c1'') = Some []" by code_simp
  have 4: "tempFileErr env0 = None" "pullErr env0 = None" "tmpReadErr env0 = None"
    "truncateErr env0 = None" "writeErr env0 0 = None" "flushErr env0 = None"
    "pushErr env0 = None"
    by (simp_all add: env0_def)
  have 5: "CHR 0x0A \<notin> set (keyType testLib (Key keyC))" by code_simp
  have 6: "CHR 0x0A \<notin> set (b64encode testLib (keyMarshal testLib (Key keyC)))" by code_simp
  have 7: "MarshalWithComment testLib keyC = lineC" by code_simp
  show ?thesis
    using empty_remote_file[OF 1 2 3 4 5 6] 7 by simp
qed

end
